theory Spec2Isabelle
  imports Main "HOL-Library.Word"
begin

section \<open>SimpleVector: a shallow embedding of simple\_vector.h\<close>

text \<open>
  The class template \<open>SimpleVector<Type>\<close> owns a raw array \<open>items_\<close> and two
  \<open>size_t\<close> counters, \<open>size_\<close> and \<open>capacity_\<close>. The embedding keeps the three members:
  \<^item> \<open>size_t\<close> is a 64-bit word, so \<open>size_--\<close>, \<open>size_++\<close>, \<open>size_ * 2\<close> and
    \<open>capacity_ += capacity_\<close> wrap as the unsigned arithmetic of the source does;
  \<^item> \<open>items_\<close> is \<open>None\<close> for \<open>nullptr\<close> and \<open>Some b\<close> for an array returned by
    \<open>new Type[n]\<close>, where the list \<open>b\<close> holds the \<open>n\<close> slots of the allocation
    (all of them, not only the first \<open>size_\<close>);
  \<^item> an iterator (\<open>Type*\<close>) is the offset of the pointer from \<open>items_\<close>, a natural
    number: \<open>begin()\<close> is offset \<open>0\<close> and \<open>end()\<close> is offset \<open>size_\<close>;
  \<^item> moving an element is copying its value (what \<open>std::move\<close> does for the scalar
    element types; the moved-from state of class types is not modelled).
  The members are named \<open>items_f\<close>, \<open>size_f\<close> and \<open>capacity_f\<close>, since a trailing
  underscore is not available for names here.
\<close>

type_synonym size_t = "64 word"

record 'a SimpleVector =
  items_f :: "'a list option"
  size_f :: size_t
  capacity_f :: size_t

text \<open>
  What can go wrong in an operation is a value of \<open>error\<close>:
  \<^item> \<open>out_of_range msg\<close>: the \<open>std::out_of_range\<close> thrown by \<open>At\<close>, with its message;
  \<^item> \<open>bad_alloc\<close>: a \<open>new Type[n]\<close> that throws;
  \<^item> \<open>assertion_failed\<close>: the \<open>assert\<close> of \<open>PopBack\<close>;
  \<^item> \<open>undefined_behaviour\<close>: a read or write of a slot outside the allocated array.
\<close>

datatype error = out_of_range string | bad_alloc | assertion_failed | undefined_behaviour

subsection \<open>The array behind items\_\<close>

text \<open>
  \<open>new Type[n]\<close>: an array object has at most \<open>PTRDIFF_MAX = 2^63 - 1\<close> bytes, and an
  element has at least one byte, so an allocation of more than \<open>max_array_len\<close> elements
  throws. Memory is otherwise taken to be sufficient. The slots of a fresh array are
  default-initialised: their content is whatever \<open>fresh\<close> gives for each index, and the
  theorems hold for every \<open>fresh\<close>.
\<close>

definition max_array_len :: nat where
  "max_array_len = 2 ^ 63 - 1"

definition new_array :: "(nat \<Rightarrow> 'a) \<Rightarrow> nat \<Rightarrow> error + 'a list" where
  "new_array fresh n =
     (if n \<le> max_array_len then Inr (map fresh [0..<n]) else Inl bad_alloc)"

text \<open>The slots reachable through \<open>items_\<close>: none through \<open>nullptr\<close>.\<close>

definition slots :: "'a SimpleVector \<Rightarrow> 'a list" where
  "slots v = (case items_f v of None \<Rightarrow> [] | Some b \<Rightarrow> b)"

text \<open>Writing back the slots after an in-place loop; \<open>nullptr\<close> stays \<open>nullptr\<close>.\<close>

definition set_slots :: "'a SimpleVector \<Rightarrow> 'a list \<Rightarrow> 'a SimpleVector" where
  "set_slots v b = (case items_f v of None \<Rightarrow> v | Some _ \<Rightarrow> v\<lparr>items_f := Some b\<rparr>)"

text \<open>\<open>p[i]\<close> as an rvalue and \<open>p[i] = x\<close>, on an array with the slots \<open>b\<close>.\<close>

definition load :: "'a list \<Rightarrow> nat \<Rightarrow> error + 'a" where
  "load b i = (if i < length b then Inr (b ! i) else Inl undefined_behaviour)"

definition store :: "'a list \<Rightarrow> nat \<Rightarrow> 'a \<Rightarrow> error + 'a list" where
  "store b i x = (if i < length b then Inr (b[i := x]) else Inl undefined_behaviour)"

subsection \<open>The loops of the standard algorithms\<close>

text \<open>
  \<open>std::move(first, last, d_first)\<close> and \<open>std::copy\<close> on pointers run
  \<open>for (n = last - first; n > 0; --n) { *d_first = *first; ++first; ++d_first; }\<close>
  over a valid range \<open>[first, last)\<close>. \<open>move_loop\<close> is that loop for a source
  array \<open>src\<close> other than the destination \<open>dst\<close>; \<open>move_loop_within\<close> is the loop when
  both pointers go into the same array, where a write is seen by the later reads.
  A call with \<open>last\<close> before \<open>first\<close> passes no range at all: the algorithms require
  \<open>last\<close> to be reachable from \<open>first\<close>, and the call is undefined behaviour (for
  \<open>int\<close> elements it becomes a \<open>memmove\<close> of a negative count). The same holds for
  \<open>std::move_backward\<close>, \<open>std::fill\<close> and \<open>std::equal\<close> below.
\<close>

fun move_loop :: "nat \<Rightarrow> 'a list \<Rightarrow> nat \<Rightarrow> 'a list \<Rightarrow> nat \<Rightarrow> error + 'a list" where
  "move_loop 0 src first dst d_first = Inr dst"
| "move_loop (Suc n) src first dst d_first =
     (if first < length src \<and> d_first < length dst
      then move_loop n src (first + 1) (dst[d_first := src ! first]) (d_first + 1)
      else Inl undefined_behaviour)"

definition std_move :: "'a list \<Rightarrow> nat \<Rightarrow> nat \<Rightarrow> 'a list \<Rightarrow> nat \<Rightarrow> error + 'a list" where
  "std_move src first last_i dst d_first =
     (if last_i < first then Inl undefined_behaviour
      else move_loop (last_i - first) src first dst d_first)"

fun move_loop_within :: "nat \<Rightarrow> 'a list \<Rightarrow> nat \<Rightarrow> nat \<Rightarrow> error + 'a list" where
  "move_loop_within 0 b first d_first = Inr b"
| "move_loop_within (Suc n) b first d_first =
     (if first < length b \<and> d_first < length b
      then move_loop_within n (b[d_first := b ! first]) (first + 1) (d_first + 1)
      else Inl undefined_behaviour)"

definition std_move_within :: "'a list \<Rightarrow> nat \<Rightarrow> nat \<Rightarrow> nat \<Rightarrow> error + 'a list" where
  "std_move_within b first last_i d_first =
     (if last_i < first then Inl undefined_behaviour
      else move_loop_within (last_i - first) b first d_first)"

text \<open>
  \<open>std::move_backward(first, last, d_last)\<close> runs
  \<open>while (first != last) *--d_last = *--last;\<close> (counted as \<open>last - first\<close> steps):
  it writes the range that ends at \<open>d_last\<close>, from its last slot down. Both pointers
  go into the same array.
\<close>

fun move_backward_loop :: "nat \<Rightarrow> 'a list \<Rightarrow> nat \<Rightarrow> nat \<Rightarrow> error + 'a list" where
  "move_backward_loop 0 b last_i d_last = Inr b"
| "move_backward_loop (Suc n) b last_i d_last =
     (if 0 < last_i \<and> last_i \<le> length b \<and> 0 < d_last \<and> d_last \<le> length b
      then move_backward_loop n (b[d_last - 1 := b ! (last_i - 1)]) (last_i - 1) (d_last - 1)
      else Inl undefined_behaviour)"

definition std_move_backward :: "'a list \<Rightarrow> nat \<Rightarrow> nat \<Rightarrow> nat \<Rightarrow> error + 'a list" where
  "std_move_backward b first last_i d_last =
     (if last_i < first then Inl undefined_behaviour
      else move_backward_loop (last_i - first) b last_i d_last)"

text \<open>\<open>std::fill(first, last, value)\<close>: \<open>for (; first != last; ++first) *first = value;\<close>\<close>

fun fill_loop :: "nat \<Rightarrow> 'a list \<Rightarrow> nat \<Rightarrow> 'a \<Rightarrow> error + 'a list" where
  "fill_loop 0 b first x = Inr b"
| "fill_loop (Suc n) b first x =
     (if first < length b then fill_loop n (b[first := x]) (first + 1) x
      else Inl undefined_behaviour)"

definition std_fill :: "'a list \<Rightarrow> nat \<Rightarrow> nat \<Rightarrow> 'a \<Rightarrow> error + 'a list" where
  "std_fill b first last_i x =
     (if last_i < first then Inl undefined_behaviour else fill_loop (last_i - first) b first x)"

subsection \<open>Constructors\<close>

text \<open>\<open>SimpleVector() noexcept = default\<close>: the member initialisers.\<close>

definition default_ctor :: "'a SimpleVector" where
  "default_ctor = \<lparr>items_f = None, size_f = 0, capacity_f = 0\<rparr>"

text \<open>\<open>explicit SimpleVector(ReserveProxyObj obj)\<close>, with \<open>n = obj.GetReserve()\<close>.\<close>

definition reserve_ctor :: "(nat \<Rightarrow> 'a) \<Rightarrow> size_t \<Rightarrow> error + 'a SimpleVector" where
  "reserve_ctor fresh n =
     (case new_array fresh (unat n) of
        Inl e \<Rightarrow> Inl e
      | Inr b \<Rightarrow> Inr \<lparr>items_f = Some b, size_f = 0, capacity_f = n\<rparr>)"

text \<open>\<open>SimpleVector(size_t size, const Type& value)\<close>.\<close>

definition fill_ctor :: "(nat \<Rightarrow> 'a) \<Rightarrow> size_t \<Rightarrow> 'a \<Rightarrow> error + 'a SimpleVector" where
  "fill_ctor fresh n x =
     (if n = 0 then Inr \<lparr>items_f = None, size_f = n, capacity_f = n\<rparr>
      else case new_array fresh (unat n) of
        Inl e \<Rightarrow> Inl e
      | Inr b \<Rightarrow>
          (case std_fill b 0 (unat n) x of
             Inl e \<Rightarrow> Inl e
           | Inr b' \<Rightarrow> Inr \<lparr>items_f = Some b', size_f = n, capacity_f = n\<rparr>))"

text \<open>
  \<open>SimpleVector(std::initializer_list<Type> init)\<close>; \<open>init.size()\<close> is a \<open>size_t\<close>,
  the length of the list as a word.
\<close>

definition init_ctor :: "(nat \<Rightarrow> 'a) \<Rightarrow> 'a list \<Rightarrow> error + 'a SimpleVector" where
  "init_ctor fresh init =
     (if length init = 0
      then Inr \<lparr>items_f = None, size_f = of_nat (length init),
                capacity_f = of_nat (length init)\<rparr>
      else case new_array fresh (length init) of
        Inl e \<Rightarrow> Inl e
      | Inr b \<Rightarrow>
          (case std_move init 0 (length init) b 0 of
             Inl e \<Rightarrow> Inl e
           | Inr b' \<Rightarrow> Inr \<lparr>items_f = Some b', size_f = of_nat (length init),
                             capacity_f = of_nat (length init)\<rparr>))"

text \<open>
  \<open>std::copy\<close> and \<open>std::move\<close> run the same loop on pointers.
\<close>

definition std_copy :: "'a list \<Rightarrow> nat \<Rightarrow> nat \<Rightarrow> 'a list \<Rightarrow> nat \<Rightarrow> error + 'a list" where
  "std_copy src first last_i dst d_first =
     (if last_i < first then Inl undefined_behaviour
      else move_loop (last_i - first) src first dst d_first)"

text \<open>
  The copy constructor allocates \<open>other.capacity_\<close> slots, also when that is \<open>0\<close>,
  and copies the first \<open>other.size_\<close> of them.
\<close>

definition copy_ctor :: "(nat \<Rightarrow> 'a) \<Rightarrow> 'a SimpleVector \<Rightarrow> error + 'a SimpleVector" where
  "copy_ctor fresh other =
     (case new_array fresh (unat (capacity_f other)) of
        Inl e \<Rightarrow> Inl e
      | Inr b \<Rightarrow>
          (case std_copy (slots other) 0 (unat (size_f other)) b 0 of
             Inl e \<Rightarrow> Inl e
           | Inr b' \<Rightarrow> Inr \<lparr>items_f = Some b', size_f = size_f other,
                             capacity_f = capacity_f other\<rparr>))"

text \<open>
  The move constructor takes the three members and resets \<open>other\<close>: the result is
  the new object and what is left of \<open>other\<close>.
\<close>

definition move_ctor :: "'a SimpleVector \<Rightarrow> 'a SimpleVector \<times> 'a SimpleVector" where
  "move_ctor other =
     (\<lparr>items_f = items_f other, size_f = size_f other, capacity_f = capacity_f other\<rparr>,
      other\<lparr>items_f := None, size_f := 0, capacity_f := 0\<rparr>)"

subsection \<open>Queries and element access\<close>

definition GetSize :: "'a SimpleVector \<Rightarrow> size_t" where
  "GetSize v = size_f v"

definition GetCapacity :: "'a SimpleVector \<Rightarrow> size_t" where
  "GetCapacity v = capacity_f v"

definition IsEmpty :: "'a SimpleVector \<Rightarrow> bool" where
  "IsEmpty v = (size_f v = 0)"

text \<open>\<open>operator[]\<close>: \<open>return items_[index];\<close> with no check.\<close>

definition subscript :: "'a SimpleVector \<Rightarrow> size_t \<Rightarrow> error + 'a" where
  "subscript v index = load (slots v) (unat index)"

text \<open>\<open>At\<close>: the bounds check, then the same read.\<close>

definition At :: "'a SimpleVector \<Rightarrow> size_t \<Rightarrow> error + 'a" where
  "At v index =
     (if index \<ge> size_f v then Inl (out_of_range ''Operation At: Out of range'')
      else load (slots v) (unat index))"

text \<open>
  Both return a reference, through which the caller may assign: \<open>v[index] = x\<close> and
  \<open>v.At(index) = x\<close>.
\<close>

definition subscript_assign :: "'a SimpleVector \<Rightarrow> size_t \<Rightarrow> 'a \<Rightarrow> error + 'a SimpleVector" where
  "subscript_assign v index x =
     (case store (slots v) (unat index) x of
        Inl e \<Rightarrow> Inl e
      | Inr b \<Rightarrow> Inr (set_slots v b))"

definition At_assign :: "'a SimpleVector \<Rightarrow> size_t \<Rightarrow> 'a \<Rightarrow> error + 'a SimpleVector" where
  "At_assign v index x =
     (if index \<ge> size_f v then Inl (out_of_range ''Operation At: Out of range'')
      else subscript_assign v index x)"

subsection \<open>Clear, Resize, Reserve\<close>

definition Clear :: "'a SimpleVector \<Rightarrow> 'a SimpleVector" where
  "Clear v = v\<lparr>size_f := 0\<rparr>"

text \<open>
  \<open>Resize\<close>: \<open>d\<close> is the value \<open>Type{}\<close>. In the growing branch \<open>capacity_\<close> is assigned
  before \<open>new\<close>; the array is moved into \<open>tmp\<close>, swapped in, and the tail filled.
\<close>

definition Resize :: "'a \<Rightarrow> (nat \<Rightarrow> 'a) \<Rightarrow> size_t \<Rightarrow> 'a SimpleVector \<Rightarrow> error + 'a SimpleVector" where
  "Resize d fresh new_size v =
     (if new_size > capacity_f v then
        (let cap = max new_size (size_f v * 2) in
         case new_array fresh (unat cap) of
           Inl e \<Rightarrow> Inl e
         | Inr tmp \<Rightarrow>
             (case std_move (slots v) 0 (unat (size_f v)) tmp 0 of
                Inl e \<Rightarrow> Inl e
              | Inr tmp' \<Rightarrow>
                  (case std_fill tmp' (unat (size_f v)) (unat new_size) d of
                     Inl e \<Rightarrow> Inl e
                   | Inr b \<Rightarrow>
                       Inr \<lparr>items_f = Some b, size_f = new_size, capacity_f = cap\<rparr>)))
      else Inr (v\<lparr>size_f := new_size\<rparr>))"

definition Reserve :: "(nat \<Rightarrow> 'a) \<Rightarrow> size_t \<Rightarrow> 'a SimpleVector \<Rightarrow> error + 'a SimpleVector" where
  "Reserve fresh new_capacity v =
     (if new_capacity > capacity_f v then
        (case new_array fresh (unat new_capacity) of
           Inl e \<Rightarrow> Inl e
         | Inr tmp \<Rightarrow>
             (case std_move (slots v) 0 (unat (size_f v)) tmp 0 of
                Inl e \<Rightarrow> Inl e
              | Inr tmp' \<Rightarrow>
                  Inr (v\<lparr>items_f := Some tmp', capacity_f := new_capacity\<rparr>)))
      else Inr v)"

subsection \<open>Insertion and removal\<close>

text \<open>
  \<open>InsertInVector(pos, value)\<close>, behind \<open>Insert\<close> and \<open>PushBack\<close>. \<open>position\<close> is
  \<open>pos - cbegin()\<close>, the offset itself. With spare capacity the source calls
  \<open>std::move_backward(begin() + position, end(), end())\<close>: the destination range ends
  at \<open>end()\<close>. Otherwise \<open>capacity_\<close> becomes \<open>1\<close> or \<open>capacity_ + capacity_\<close> before
  \<open>new\<close>, and the two halves are moved into \<open>tmp\<close> around the gap. Then the value is
  assigned at \<open>position\<close>, \<open>size_\<close> is incremented and \<open>begin() + position\<close> returned.
\<close>

definition InsertInVector :: "(nat \<Rightarrow> 'a) \<Rightarrow> 'a SimpleVector \<Rightarrow> nat \<Rightarrow> 'a \<Rightarrow> error + ('a SimpleVector \<times> nat)" where
  "InsertInVector fresh v pos x =
     (let position = pos in
      case
        (if size_f v < capacity_f v then
           (case std_move_backward (slots v) position (unat (size_f v)) (unat (size_f v)) of
              Inl e \<Rightarrow> Inl e
            | Inr b \<Rightarrow> Inr (set_slots v b))
         else
           (let cap = (if capacity_f v = 0 then 1 else capacity_f v + capacity_f v) in
            case new_array fresh (unat cap) of
              Inl e \<Rightarrow> Inl e
            | Inr tmp \<Rightarrow>
                (case std_move (slots v) 0 position tmp 0 of
                   Inl e \<Rightarrow> Inl e
                 | Inr tmp' \<Rightarrow>
                     (case std_move (slots v) position (unat (size_f v)) tmp' (position + 1) of
                        Inl e \<Rightarrow> Inl e
                      | Inr tmp'' \<Rightarrow> Inr (v\<lparr>items_f := Some tmp'', capacity_f := cap\<rparr>)))))
      of
        Inl e \<Rightarrow> Inl e
      | Inr v' \<Rightarrow>
          (case store (slots v') position x of
             Inl e \<Rightarrow> Inl e
           | Inr b \<Rightarrow> Inr ((set_slots v' b)\<lparr>size_f := size_f v' + 1\<rparr>, position)))"

definition Insert :: "(nat \<Rightarrow> 'a) \<Rightarrow> 'a SimpleVector \<Rightarrow> nat \<Rightarrow> 'a \<Rightarrow> error + ('a SimpleVector \<times> nat)" where
  "Insert fresh v pos x = InsertInVector fresh v pos x"

text \<open>\<open>PushBack(item)\<close>: \<open>InsertInVector(end(), item)\<close>, the returned iterator dropped.\<close>

definition PushBack :: "(nat \<Rightarrow> 'a) \<Rightarrow> 'a SimpleVector \<Rightarrow> 'a \<Rightarrow> error + 'a SimpleVector" where
  "PushBack fresh v x =
     (case InsertInVector fresh v (unat (size_f v)) x of
        Inl e \<Rightarrow> Inl e
      | Inr (v', _) \<Rightarrow> Inr v')"

definition PopBack :: "'a SimpleVector \<Rightarrow> error + 'a SimpleVector" where
  "PopBack v = (if size_f v \<noteq> 0 then Inr (v\<lparr>size_f := size_f v - 1\<rparr>) else Inl assertion_failed)"

text \<open>
  \<open>Erase(pos)\<close>: \<open>std::move(pos + 1, end(), pos)\<close> inside the array, then \<open>size_--\<close>,
  with no check of \<open>pos\<close> or of \<open>size_\<close>. For a position that is not below \<open>size_\<close>
  the range \<open>[pos + 1, end())\<close> is inverted.
\<close>

definition Erase :: "'a SimpleVector \<Rightarrow> nat \<Rightarrow> error + ('a SimpleVector \<times> nat)" where
  "Erase v pos =
     (let pos_return = pos in
      case std_move_within (slots v) (pos_return + 1) (unat (size_f v)) pos_return of
        Inl e \<Rightarrow> Inl e
      | Inr b \<Rightarrow> Inr ((set_slots v b)\<lparr>size_f := size_f v - 1\<rparr>, pos_return))"

subsection \<open>Assignment and swap\<close>

text \<open>
  Copy assignment from another object \<open>rhs\<close> (for \<open>this == &rhs\<close> the source returns
  at once and the object is unchanged). The result is the new state of \<open>*this\<close>; in
  the second branch that is the copy \<open>tmp\<close>, whose members are swapped in.
\<close>

definition copy_assign :: "(nat \<Rightarrow> 'a) \<Rightarrow> 'a SimpleVector \<Rightarrow> 'a SimpleVector \<Rightarrow> error + 'a SimpleVector" where
  "copy_assign fresh this rhs =
     (if size_f rhs \<le> capacity_f this then
        (case std_copy (slots rhs) 0 (unat (size_f rhs)) (slots this) 0 of
           Inl e \<Rightarrow> Inl e
         | Inr b \<Rightarrow> Inr ((set_slots this b)\<lparr>size_f := size_f rhs\<rparr>))
      else
        (case copy_ctor fresh rhs of
           Inl e \<Rightarrow> Inl e
         | Inr tmp \<Rightarrow>
             Inr (this\<lparr>items_f := items_f tmp, size_f := size_f tmp,
                       capacity_f := capacity_f tmp\<rparr>)))"

text \<open>
  Move assignment from another object: \<open>*this\<close> takes the members of \<open>rhs\<close>, and
  \<open>rhs\<close> is reset. The result is the pair of both objects afterwards.
\<close>

definition move_assign :: "'a SimpleVector \<Rightarrow> 'a SimpleVector \<Rightarrow> 'a SimpleVector \<times> 'a SimpleVector" where
  "move_assign this rhs =
     (this\<lparr>items_f := items_f rhs, size_f := size_f rhs, capacity_f := capacity_f rhs\<rparr>,
      rhs\<lparr>items_f := None, size_f := 0, capacity_f := 0\<rparr>)"

definition swap_v :: "'a SimpleVector \<Rightarrow> 'a SimpleVector \<Rightarrow> 'a SimpleVector \<times> 'a SimpleVector" where
  "swap_v this other =
     (this\<lparr>items_f := items_f other, size_f := size_f other, capacity_f := capacity_f other\<rparr>,
      other\<lparr>items_f := items_f this, size_f := size_f this, capacity_f := capacity_f this\<rparr>)"

subsection \<open>Equality\<close>

text \<open>
  \<open>std::equal(first1, last1, first2)\<close>:
  \<open>for (; first1 != last1; ++first1, ++first2) if (!(*first1 == *first2)) return false;\<close>
  and \<open>true\<close> after the loop. The second range has no end: the loop reads
  \<open>first2[i]\<close> for as long as the first range lasts and the elements agree.
\<close>

fun equal_loop :: "nat \<Rightarrow> 'a list \<Rightarrow> nat \<Rightarrow> 'a list \<Rightarrow> nat \<Rightarrow> error + bool" where
  "equal_loop 0 a first1 b first2 = Inr True"
| "equal_loop (Suc n) a first1 b first2 =
     (if first1 < length a \<and> first2 < length b
      then (if a ! first1 = b ! first2 then equal_loop n a (first1 + 1) b (first2 + 1)
            else Inr False)
      else Inl undefined_behaviour)"

definition std_equal :: "'a list \<Rightarrow> nat \<Rightarrow> nat \<Rightarrow> 'a list \<Rightarrow> nat \<Rightarrow> error + bool" where
  "std_equal a first1 last1 b first2 =
     (if last1 < first1 then Inl undefined_behaviour
      else equal_loop (last1 - first1) a first1 b first2)"

text \<open>
  \<open>operator==\<close>: \<open>std::equal(lhs.begin(), lhs.end(), rhs.begin()) && lhs.GetSize() == rhs.GetSize()\<close>.
  The sizes are compared after \<open>std::equal\<close> has run, and only if it returned \<open>true\<close>.
\<close>

definition operator_eq :: "'a SimpleVector \<Rightarrow> 'a SimpleVector \<Rightarrow> error + bool" where
  "operator_eq lhs rhs =
     (case std_equal (slots lhs) 0 (unat (size_f lhs)) (slots rhs) 0 of
        Inl e \<Rightarrow> Inl e
      | Inr r \<Rightarrow> Inr (r \<and> GetSize lhs = GetSize rhs))"

text \<open>The elements of the vector: the slots at the indices \<open>[0, size_)\<close>.\<close>

definition elements :: "'a SimpleVector \<Rightarrow> 'a list" where
  "elements v = take (unat (size_f v)) (slots v)"

subsection \<open>Sequences of PushBack\<close>

text \<open>\<open>for (x : xs) v.PushBack(x);\<close> The first call that throws ends the sequence.\<close>

fun PushBack_all :: "(nat \<Rightarrow> 'a) \<Rightarrow> 'a SimpleVector \<Rightarrow> 'a list \<Rightarrow> error + 'a SimpleVector" where
  "PushBack_all fresh v [] = Inr v"
| "PushBack_all fresh v (x # xs) =
     (case PushBack fresh v x of
        Inl e \<Rightarrow> Inl e
      | Inr v' \<Rightarrow> PushBack_all fresh v' xs)"

subsection \<open>The class invariant and the reachable states\<close>

text \<open>
  The members fit together when \<open>size_ \<le> capacity_\<close> and \<open>items_\<close> has exactly
  \<open>capacity_\<close> slots, an array that \<open>new\<close> can return. \<open>nullptr\<close> has no slots, so a
  valid object with a null \<open>items_\<close> has capacity \<open>0\<close>.
\<close>

definition valid :: "'a SimpleVector \<Rightarrow> bool" where
  "valid v \<longleftrightarrow>
     size_f v \<le> capacity_f v \<and>
     length (slots v) = unat (capacity_f v) \<and>
     unat (capacity_f v) \<le> max_array_len"

text \<open>
  The states that a run of \<open>PushBack\<close> calls on an empty vector goes through: empty
  with no capacity, or a capacity that is a power of two, at least \<open>size_\<close> and less
  than twice \<open>size_\<close>.
\<close>

definition grown :: "'a SimpleVector \<Rightarrow> bool" where
  "grown v \<longleftrightarrow>
     (size_f v = 0 \<and> capacity_f v = 0) \<or>
     (\<exists>n. unat (capacity_f v) = 2 ^ n \<and> unat (size_f v) \<le> 2 ^ n \<and>
          2 ^ n < 2 * unat (size_f v))"

text \<open>
  The object a throwing call leaves behind. \<open>Resize\<close> and \<open>InsertInVector\<close> assign
  \<open>capacity_\<close> before they call \<open>new\<close>; when \<open>new\<close> throws, the exception leaves the
  function with the new \<open>capacity_\<close> and the old \<open>items_\<close> and \<open>size_\<close>. (\<open>Reserve\<close>
  and copy assignment allocate first, and \<open>At\<close> throws before it touches anything:
  they leave the object as it was.)
\<close>

definition Resize_thrown :: "size_t \<Rightarrow> 'a SimpleVector \<Rightarrow> 'a SimpleVector" where
  "Resize_thrown new_size v = v\<lparr>capacity_f := max new_size (size_f v * 2)\<rparr>"

definition InsertInVector_thrown :: "'a SimpleVector \<Rightarrow> 'a SimpleVector" where
  "InsertInVector_thrown v =
     v\<lparr>capacity_f := (if capacity_f v = 0 then 1 else capacity_f v + capacity_f v)\<rparr>"

text \<open>
  The states an object can be in: those a constructor returns, and those a public
  member function leaves behind when it is called on a reachable object within its
  contract (an index below \<open>size_\<close> for \<open>operator[]\<close>, a position in \<open>[begin(), end()]\<close>
  for \<open>Insert\<close> and in \<open>[begin(), end())\<close> for \<open>Erase\<close>, a non-empty vector for
  \<open>PopBack\<close>). The operations on two objects (copy and move construction and
  assignment, \<open>swap\<close>) take a second reachable object. The parameter \<open>throws\<close> says
  whether calls that end in \<open>bad_alloc\<close> count: \<open>reachable True\<close> has all states,
  also those a throwing \<open>Resize\<close>, \<open>Insert\<close> or \<open>PushBack\<close> leaves behind;
  \<open>reachable False\<close> has the states reached while every call returned.
\<close>

inductive reachable :: "bool \<Rightarrow> 'a SimpleVector \<Rightarrow> bool" for throws :: bool where
  r_default: "reachable throws default_ctor"
| r_reserve_ctor: "reserve_ctor fresh n = Inr v \<Longrightarrow> reachable throws v"
| r_fill_ctor: "fill_ctor fresh n x = Inr v \<Longrightarrow> reachable throws v"
| r_init_ctor: "init_ctor fresh init = Inr v \<Longrightarrow> reachable throws v"
| r_copy_ctor: "reachable throws other \<Longrightarrow> copy_ctor fresh other = Inr v \<Longrightarrow> reachable throws v"
| r_move_ctor_new: "reachable throws other \<Longrightarrow> reachable throws (fst (move_ctor other))"
| r_move_ctor_old: "reachable throws other \<Longrightarrow> reachable throws (snd (move_ctor other))"
| r_subscript: "reachable throws v \<Longrightarrow> index < size_f v \<Longrightarrow> subscript_assign v index x = Inr v'
     \<Longrightarrow> reachable throws v'"
| r_At: "reachable throws v \<Longrightarrow> At_assign v index x = Inr v' \<Longrightarrow> reachable throws v'"
| r_Clear: "reachable throws v \<Longrightarrow> reachable throws (Clear v)"
| r_Resize: "reachable throws v \<Longrightarrow> Resize d fresh new_size v = Inr v' \<Longrightarrow> reachable throws v'"
| r_Reserve: "reachable throws v \<Longrightarrow> Reserve fresh new_capacity v = Inr v' \<Longrightarrow> reachable throws v'"
| r_copy_assign: "reachable throws this \<Longrightarrow> reachable throws rhs \<Longrightarrow> copy_assign fresh this rhs = Inr v'
     \<Longrightarrow> reachable throws v'"
| r_move_assign_this: "reachable throws this \<Longrightarrow> reachable throws rhs
     \<Longrightarrow> reachable throws (fst (move_assign this rhs))"
| r_move_assign_rhs: "reachable throws this \<Longrightarrow> reachable throws rhs
     \<Longrightarrow> reachable throws (snd (move_assign this rhs))"
| r_swap_this: "reachable throws this \<Longrightarrow> reachable throws other \<Longrightarrow> reachable throws (fst (swap_v this other))"
| r_swap_other: "reachable throws this \<Longrightarrow> reachable throws other \<Longrightarrow> reachable throws (snd (swap_v this other))"
| r_PushBack: "reachable throws v \<Longrightarrow> PushBack fresh v x = Inr v' \<Longrightarrow> reachable throws v'"
| r_PopBack: "reachable throws v \<Longrightarrow> PopBack v = Inr v' \<Longrightarrow> reachable throws v'"
| r_Insert: "reachable throws v \<Longrightarrow> pos \<le> unat (size_f v) \<Longrightarrow> Insert fresh v pos x = Inr (v', p)
     \<Longrightarrow> reachable throws v'"
| r_Erase: "reachable throws v \<Longrightarrow> pos < unat (size_f v) \<Longrightarrow> Erase v pos = Inr (v', p)
     \<Longrightarrow> reachable throws v'"
| r_Resize_thrown: "throws \<Longrightarrow> reachable throws v \<Longrightarrow> Resize d fresh new_size v = Inl bad_alloc
     \<Longrightarrow> reachable throws (Resize_thrown new_size v)"
| r_Insert_thrown: "throws \<Longrightarrow> reachable throws v \<Longrightarrow> pos \<le> unat (size_f v)
     \<Longrightarrow> Insert fresh v pos x = Inl bad_alloc \<Longrightarrow> reachable throws (InsertInVector_thrown v)"
| r_PushBack_thrown: "throws \<Longrightarrow> reachable throws v \<Longrightarrow> PushBack fresh v x = Inl bad_alloc
     \<Longrightarrow> reachable throws (InsertInVector_thrown v)"

subsection \<open>Example data\<close>

text \<open>
  A fresh array of numbers that happens to hold zeros, and the vector
  \<open>{10, 20, 30, 40}\<close> after one \<open>PopBack\<close>: three elements in four slots.
\<close>

definition zeros :: "nat \<Rightarrow> nat" where
  "zeros i = 0"

definition three_of_four :: "nat SimpleVector" where
  "three_of_four = \<lparr>items_f = Some [10, 20, 30, 40], size_f = 3, capacity_f = 4\<rparr>"

section \<open>Properties\<close>

subsection \<open>The loops keep the length of the array\<close>

lemma move_loop_length:
  "move_loop n src first dst d = Inr r \<Longrightarrow> length r = length dst"
  by (induction n arbitrary: first dst d) (auto split: if_splits)

lemma move_loop_within_length:
  "move_loop_within n b first d = Inr r \<Longrightarrow> length r = length b"
  by (induction n arbitrary: first b d) (auto split: if_splits)

lemma move_backward_loop_length:
  "move_backward_loop n b l d = Inr r \<Longrightarrow> length r = length b"
  by (induction n arbitrary: l b d) (auto split: if_splits)

lemma fill_loop_length:
  "fill_loop n b first x = Inr r \<Longrightarrow> length r = length b"
  by (induction n arbitrary: first b) (auto split: if_splits)

lemma std_move_length: "std_move src f l dst d = Inr r \<Longrightarrow> length r = length dst"
  by (auto simp: std_move_def split: if_splits dest: move_loop_length)

lemma std_copy_length: "std_copy src f l dst d = Inr r \<Longrightarrow> length r = length dst"
  by (auto simp: std_copy_def split: if_splits dest: move_loop_length)

lemma std_move_within_length: "std_move_within b f l d = Inr r \<Longrightarrow> length r = length b"
  by (auto simp: std_move_within_def split: if_splits dest: move_loop_within_length)

lemma std_move_backward_length: "std_move_backward b f l d = Inr r \<Longrightarrow> length r = length b"
  by (auto simp: std_move_backward_def split: if_splits dest: move_backward_loop_length)

lemma std_fill_length: "std_fill b f l x = Inr r \<Longrightarrow> length r = length b"
  unfolding std_fill_def by (auto split: if_splits dest: fill_loop_length)

lemma store_length: "store b i x = Inr r \<Longrightarrow> length r = length b"
  by (auto simp: store_def split: if_splits)

lemma new_array_Inr: "new_array fresh n = Inr b \<Longrightarrow> length b = n \<and> n \<le> max_array_len"
  by (auto simp: new_array_def split: if_splits)

subsection \<open>The invariant is kept by every operation\<close>

lemma slots_simps [simp]:
  "slots (v\<lparr>size_f := n\<rparr>) = slots v"
  "slots (v\<lparr>capacity_f := c\<rparr>) = slots v"
  "slots (v\<lparr>items_f := Some b\<rparr>) = b"
  "slots (v\<lparr>items_f := None\<rparr>) = []"
  "slots \<lparr>items_f = Some b, size_f = n, capacity_f = c\<rparr> = b"
  "slots \<lparr>items_f = None, size_f = n, capacity_f = c\<rparr> = []"
  by (simp_all add: slots_def)

lemma set_slots_simps [simp]:
  "size_f (set_slots v b) = size_f v"
  "capacity_f (set_slots v b) = capacity_f v"
  "length b = length (slots v) \<Longrightarrow> slots (set_slots v b) = b"
  by (auto simp: set_slots_def slots_def split: option.splits)

lemma valid_None: "valid v \<Longrightarrow> items_f v = None \<Longrightarrow> capacity_f v = 0"
  by (simp add: valid_def slots_def unat_eq_0)

lemma valid_default: "valid default_ctor"
  by (simp add: valid_def default_ctor_def)

lemma valid_reserve_ctor: "reserve_ctor fresh n = Inr v \<Longrightarrow> valid v"
  by (auto simp: reserve_ctor_def valid_def split: sum.splits dest!: new_array_Inr)

lemma valid_fill_ctor: "fill_ctor fresh n x = Inr v \<Longrightarrow> valid v"
  by (auto simp: fill_ctor_def valid_def split: sum.splits if_splits
      dest!: new_array_Inr std_fill_length)

lemma max_array_len_lt: "max_array_len < 2 ^ 64"
  by (simp add: max_array_len_def)

lemma unat_of_nat_len: "n \<le> max_array_len \<Longrightarrow> unat (of_nat n :: size_t) = n"
  using max_array_len_lt by (simp add: unat_of_nat)

lemma valid_init_ctor: "init_ctor fresh init = Inr v \<Longrightarrow> valid v"
  by (auto simp: init_ctor_def valid_def unat_of_nat_len split: sum.splits if_splits
      dest!: new_array_Inr std_move_length)

lemma valid_copy_ctor: "valid other \<Longrightarrow> copy_ctor fresh other = Inr v \<Longrightarrow> valid v"
  by (auto simp: copy_ctor_def valid_def split: sum.splits if_splits
      dest!: new_array_Inr std_copy_length)

lemma valid_move_ctor: "valid other \<Longrightarrow> valid (fst (move_ctor other)) \<and> valid (snd (move_ctor other))"
  by (auto simp: move_ctor_def valid_def slots_def)

lemma valid_Clear: "valid v \<Longrightarrow> valid (Clear v)"
  by (auto simp: Clear_def valid_def)

lemma valid_subscript_assign: "valid v \<Longrightarrow> subscript_assign v i x = Inr v' \<Longrightarrow> valid v'"
  by (auto simp: subscript_assign_def valid_def split: sum.splits dest!: store_length)

lemma valid_At_assign: "valid v \<Longrightarrow> At_assign v i x = Inr v' \<Longrightarrow> valid v'"
  by (auto simp: At_assign_def split: if_splits dest: valid_subscript_assign)

lemma valid_Resize: "valid v \<Longrightarrow> Resize d fresh n v = Inr v' \<Longrightarrow> valid v'"
  by (auto simp: Resize_def Let_def valid_def split: sum.splits if_splits
      dest!: new_array_Inr std_move_length std_fill_length)

lemma valid_Reserve: "valid v \<Longrightarrow> Reserve fresh n v = Inr v' \<Longrightarrow> valid v'"
  by (auto simp: Reserve_def Let_def valid_def split: sum.splits if_splits
      dest!: new_array_Inr std_move_length)

lemma valid_copy_assign:
  assumes "valid this" "valid rhs" "copy_assign fresh this rhs = Inr v'"
  shows "valid v'"
proof (cases "size_f rhs \<le> capacity_f this")
  case True
  with assms(3) obtain b where
    b: "std_copy (slots rhs) 0 (unat (size_f rhs)) (slots this) 0 = Inr b"
    and v': "v' = (set_slots this b)\<lparr>size_f := size_f rhs\<rparr>"
    by (auto simp: copy_assign_def split: sum.splits)
  from b have "length b = length (slots this)"
    by (rule std_copy_length)
  with assms(1) True show ?thesis
    by (simp add: v' valid_def)
next
  case False
  with assms(3) obtain tmp where
    tmp: "copy_ctor fresh rhs = Inr tmp"
    and v': "v' = this\<lparr>items_f := items_f tmp, size_f := size_f tmp,
                        capacity_f := capacity_f tmp\<rparr>"
    by (auto simp: copy_assign_def split: sum.splits)
  from assms(2) tmp have "valid tmp"
    by (rule valid_copy_ctor)
  then show ?thesis
    by (simp add: v' valid_def slots_def)
qed

lemma valid_move_assign:
  "valid this \<Longrightarrow> valid rhs \<Longrightarrow> valid (fst (move_assign this rhs)) \<and> valid (snd (move_assign this rhs))"
  by (auto simp: move_assign_def valid_def slots_def)

lemma valid_swap:
  "valid this \<Longrightarrow> valid other \<Longrightarrow> valid (fst (swap_v this other)) \<and> valid (snd (swap_v this other))"
  by (auto simp: swap_v_def valid_def slots_def)

lemma word_dec_le: "(s :: size_t) \<le> c \<Longrightarrow> s \<noteq> 0 \<Longrightarrow> s - 1 \<le> c"
  by unat_arith

lemma valid_PopBack: "valid v \<Longrightarrow> PopBack v = Inr v' \<Longrightarrow> valid v'"
  by (auto simp: PopBack_def valid_def word_dec_le split: if_splits)

lemma valid_Erase: "valid v \<Longrightarrow> pos < unat (size_f v) \<Longrightarrow> Erase v pos = Inr (v', p) \<Longrightarrow> valid v'"
  apply (auto simp: Erase_def Let_def valid_def split: sum.splits dest!: std_move_within_length)
  apply (rule word_dec_le)
  apply (auto simp: unat_eq_0)
  done

lemma word_inc_le: "(s :: size_t) < c \<Longrightarrow> s + 1 \<le> c"
  by (rule inc_le)

lemma double_no_wrap:
  "unat (c :: size_t) \<le> max_array_len \<Longrightarrow> unat (c + c) = 2 * unat c"
proof -
  assume "unat c \<le> max_array_len"
  then have "unat c + unat c < 2 ^ LENGTH(64)"
    by (simp add: max_array_len_def)
  then show ?thesis
    using unat_add_lem [of c c] by simp
qed

lemma valid_InsertInVector:
  assumes "valid v" "InsertInVector fresh v pos x = Inr (v', p)"
  shows "valid v'"
proof (cases "size_f v < capacity_f v")
  case True
  with assms(2) obtain b b' where
    b: "std_move_backward (slots v) pos (unat (size_f v)) (unat (size_f v)) = Inr b"
    and b': "store (slots (set_slots v b)) pos x = Inr b'"
    and v': "v' = (set_slots (set_slots v b) b')\<lparr>size_f := size_f v + 1\<rparr>"
    by (auto simp: InsertInVector_def Let_def split: sum.splits)
  from b have lb: "length b = length (slots v)"
    by (rule std_move_backward_length)
  from b' lb have lb': "length b' = length (slots v)"
    by (auto dest: store_length)
  from True have "size_f v + 1 \<le> capacity_f v"
    by (rule word_inc_le)
  with assms(1) lb lb' show ?thesis
    by (simp add: v' valid_def)
next
  case False
  define cap where "cap = (if capacity_f v = 0 then 1 else capacity_f v + capacity_f v)"
  from False assms(2) obtain tmp tmp' tmp'' b' where
    tmp: "new_array fresh (unat cap) = Inr tmp"
    and tmp': "std_move (slots v) 0 pos tmp 0 = Inr tmp'"
    and tmp'': "std_move (slots v) pos (unat (size_f v)) tmp' (pos + 1) = Inr tmp''"
    and b': "store tmp'' pos x = Inr b'"
    and v': "v' = (set_slots (v\<lparr>items_f := Some tmp'', capacity_f := cap\<rparr>) b')\<lparr>size_f := size_f v + 1\<rparr>"
    by (auto simp: InsertInVector_def Let_def cap_def split: sum.splits)
  from tmp have lt: "length tmp = unat cap" "unat cap \<le> max_array_len"
    by (auto dest: new_array_Inr)
  from tmp' tmp'' b' lt have lb': "length b' = unat cap" "length tmp'' = unat cap"
    by (auto dest!: std_move_length store_length)
  from False assms(1) have eq: "size_f v = capacity_f v"
    by (auto simp: valid_def)
  have "size_f v + 1 \<le> cap"
  proof (cases "capacity_f v = 0")
    case True
    with eq show ?thesis by (simp add: cap_def)
  next
    case False
    from assms(1) have "unat (capacity_f v + capacity_f v) = 2 * unat (capacity_f v)"
      by (intro double_no_wrap) (simp add: valid_def)
    moreover from False have "0 < unat (capacity_f v)"
      by (simp add: unat_gt_0)
    ultimately show ?thesis
      using False eq by (simp add: cap_def) unat_arith
  qed
  with lb' lt show ?thesis
    by (simp add: v' valid_def set_slots_def)
qed

lemma valid_PushBack: "valid v \<Longrightarrow> PushBack fresh v x = Inr v' \<Longrightarrow> valid v'"
  by (auto simp: PushBack_def split: sum.splits dest: valid_InsertInVector)

subsection \<open>Checked access\<close>

text \<open>
  C8. \<open>At(index)\<close> reports the out-of-range error, with its message, exactly when
  \<open>index \<ge> size_\<close>, and then no member has changed: the call ends with the error,
  also when the caller was about to assign through the reference. For
  \<open>index < size_\<close> it returns what the unchecked \<open>operator[]\<close> returns, for reading
  and for assigning; reading computes a result from the vector and changes no member.
\<close>

theorem C8_At_checked:
  "(At v index = Inl (out_of_range ''Operation At: Out of range'') \<longleftrightarrow> index \<ge> size_f v) \<and>
   (index \<ge> size_f v \<longrightarrow>
      At_assign v index x = Inl (out_of_range ''Operation At: Out of range'')) \<and>
   (index < size_f v \<longrightarrow>
      At v index = subscript v index \<and> At_assign v index x = subscript_assign v index x)"
  by (auto simp: At_def At_assign_def subscript_def load_def)

theorem C8_At_checked_witness:
  "At \<lparr>items_f = Some [10, 20, 30 :: nat], size_f = 3, capacity_f = 3\<rparr> 2 = Inr 30 \<and>
   subscript \<lparr>items_f = Some [10, 20, 30 :: nat], size_f = 3, capacity_f = 3\<rparr> 2 = Inr 30 \<and>
   At \<lparr>items_f = Some [10, 20, 30 :: nat], size_f = 3, capacity_f = 3\<rparr> 3 =
     Inl (out_of_range ''Operation At: Out of range'') \<and>
   At_assign \<lparr>items_f = Some [10, 20, 30 :: nat], size_f = 3, capacity_f = 3\<rparr> 3 7 =
     Inl (out_of_range ''Operation At: Out of range'')"
  using C8_At_checked [of "\<lparr>items_f = Some [10, 20, 30 :: nat], size_f = 3, capacity_f = 3\<rparr>" 2 7]
    C8_At_checked [of "\<lparr>items_f = Some [10, 20, 30 :: nat], size_f = 3, capacity_f = 3\<rparr>" 3 7]
  by (simp add: subscript_def load_def slots_def)

subsection \<open>The size and capacity invariant\<close>

lemma reachable_valid: "reachable False v \<Longrightarrow> valid v"
proof (induction rule: reachable.induct)
  case r_default
  show ?case by (rule valid_default)
next
  case (r_reserve_ctor fresh n v)
  then show ?case by (rule valid_reserve_ctor)
next
  case (r_fill_ctor fresh n x v)
  then show ?case by (rule valid_fill_ctor)
next
  case (r_init_ctor fresh init v)
  then show ?case by (rule valid_init_ctor)
next
  case (r_copy_ctor other fresh v)
  then show ?case by (blast intro: valid_copy_ctor)
next
  case (r_move_ctor_new other)
  then show ?case by (simp add: valid_move_ctor)
next
  case (r_move_ctor_old other)
  then show ?case by (simp add: valid_move_ctor)
next
  case (r_subscript v index x v')
  then show ?case by (blast intro: valid_subscript_assign)
next
  case (r_At v index x v')
  then show ?case by (blast intro: valid_At_assign)
next
  case (r_Clear v)
  then show ?case by (simp add: valid_Clear)
next
  case (r_Resize v d fresh new_size v')
  then show ?case by (blast intro: valid_Resize)
next
  case (r_Reserve v fresh new_capacity v')
  then show ?case by (blast intro: valid_Reserve)
next
  case (r_copy_assign this rhs fresh v')
  then show ?case by (blast intro: valid_copy_assign)
next
  case (r_move_assign_this this rhs)
  then show ?case by (simp add: valid_move_assign)
next
  case (r_move_assign_rhs this rhs)
  then show ?case by (simp add: valid_move_assign)
next
  case (r_swap_this this other)
  then show ?case by (simp add: valid_swap)
next
  case (r_swap_other this other)
  then show ?case by (simp add: valid_swap)
next
  case (r_PushBack v fresh x v')
  then show ?case by (blast intro: valid_PushBack)
next
  case (r_PopBack v v')
  then show ?case by (blast intro: valid_PopBack)
next
  case (r_Insert v pos fresh x v' p)
  then show ?case unfolding Insert_def by (blast intro: valid_InsertInVector)
next
  case (r_Erase v pos v' p)
  then show ?case by (blast intro: valid_Erase)
next
  case (r_Resize_thrown v d fresh new_size)
  then show ?case by simp
next
  case (r_Insert_thrown v pos fresh x)
  then show ?case by simp
next
  case (r_PushBack_thrown v fresh x)
  then show ?case by simp
qed

lemma reachable_three_of_four: "reachable False three_of_four"
proof -
  have "init_ctor zeros [10, 20, 30, 40]
        = Inr \<lparr>items_f = Some [10, 20, 30, 40], size_f = 4, capacity_f = 4\<rparr>"
    by (simp add: init_ctor_def new_array_def max_array_len_def std_move_def zeros_def)
  then have "reachable False \<lparr>items_f = Some [10, 20, 30, 40 :: nat], size_f = 4, capacity_f = 4\<rparr>"
    by (rule r_init_ctor)
  moreover have "PopBack \<lparr>items_f = Some [10, 20, 30, 40 :: nat], size_f = 4, capacity_f = 4\<rparr>
        = Inr three_of_four"
    by (simp add: PopBack_def three_of_four_def)
  ultimately show ?thesis by (rule r_PopBack)
qed

text \<open>
  C5, as the code has it by design. In every state reachable from a constructor by
  public operations that are called within their contract, none of which has thrown,
  \<open>size_ \<le> capacity_\<close>, a null \<open>items_\<close> implies \<open>capacity_ = 0\<close>, and \<open>items_\<close> has
  exactly \<open>capacity_\<close> slots. The converse, that capacity \<open>0\<close> implies a null
  \<open>items_\<close>, is not part of the invariant, and nothing is said of an object on which
  a call has thrown.
\<close>

theorem C5_invariant:
  "reachable False v \<Longrightarrow>
     size_f v \<le> capacity_f v \<and>
     (items_f v = None \<longrightarrow> capacity_f v = 0) \<and>
     length (slots v) = unat (capacity_f v)"
  by (auto dest!: reachable_valid simp: valid_None) (simp_all add: valid_def)

theorem C5_invariant_witness:
  "reachable False three_of_four \<and> size_f three_of_four \<le> capacity_f three_of_four \<and>
   items_f three_of_four \<noteq> None \<and> length (slots three_of_four) = 4"
  using C5_invariant [OF reachable_three_of_four] reachable_three_of_four
  by (simp add: three_of_four_def)

text \<open>
  C5 as stated fails, in three reachable states.
  \<^item> The constructor from \<open>Reserve(0)\<close> runs \<open>new Type[0]\<close>, which returns a non-null
    pointer to an array of no slots: capacity \<open>0\<close> and a buffer that is not null.
  \<^item> On a default-constructed vector, \<open>Resize(2^63)\<close> assigns \<open>capacity_ = 2^63\<close> and
    then \<open>new\<close> throws: the buffer is null and the capacity is not \<open>0\<close>.
  \<^item> On a default-constructed vector, \<open>Resize(2^64 - 1)\<close> throws and leaves
    \<open>capacity_ = 2^64 - 1\<close>; a second \<open>Resize(2^64 - 1)\<close> is within that capacity and
    sets \<open>size_ = 2^64 - 1\<close>; \<open>Insert(begin(), 7)\<close> then finds no spare capacity,
    doubles \<open>capacity_\<close> to \<open>2^64 - 2\<close> (modulo \<open>2^64\<close>) and \<open>new\<close> throws: \<open>size_\<close>
    exceeds \<open>capacity_\<close>.
\<close>

theorem C5_counterexample:
  "reachable True \<lparr>items_f = Some ([] :: nat list), size_f = 0, capacity_f = 0\<rparr> \<and>
   \<not> (capacity_f \<lparr>items_f = Some ([] :: nat list), size_f = 0, capacity_f = 0\<rparr> = 0 \<longleftrightarrow>
       items_f \<lparr>items_f = Some ([] :: nat list), size_f = 0, capacity_f = 0\<rparr> = None) \<and>
   reachable True \<lparr>items_f = (None :: nat list option), size_f = 0,
                   capacity_f = 9223372036854775808\<rparr> \<and>
   \<not> (capacity_f \<lparr>items_f = (None :: nat list option), size_f = 0,
                    capacity_f = 9223372036854775808\<rparr> = 0 \<longleftrightarrow>
       items_f \<lparr>items_f = (None :: nat list option), size_f = 0,
                 capacity_f = 9223372036854775808\<rparr> = None) \<and>
   reachable True \<lparr>items_f = (None :: nat list option), size_f = 18446744073709551615,
                   capacity_f = 18446744073709551614\<rparr> \<and>
   \<not> size_f \<lparr>items_f = (None :: nat list option), size_f = 18446744073709551615,
               capacity_f = 18446744073709551614\<rparr>
       \<le> capacity_f \<lparr>items_f = (None :: nat list option), size_f = 18446744073709551615,
                        capacity_f = 18446744073709551614\<rparr>"
proof -
  have "reserve_ctor zeros 0 = Inr \<lparr>items_f = Some [], size_f = 0, capacity_f = 0\<rparr>"
    by (simp add: reserve_ctor_def new_array_def)
  then have a: "reachable True \<lparr>items_f = Some ([] :: nat list), size_f = 0, capacity_f = 0\<rparr>"
    by (rule r_reserve_ctor)
  have d: "reachable True (default_ctor :: nat SimpleVector)"
    by (rule r_default)
  have "Resize 0 zeros 9223372036854775808 (default_ctor :: nat SimpleVector) = Inl bad_alloc"
    by (simp add: Resize_def default_ctor_def new_array_def max_array_len_def)
  with d have "reachable True (Resize_thrown 9223372036854775808 (default_ctor :: nat SimpleVector))"
    by (intro r_Resize_thrown) simp_all
  then have b: "reachable True \<lparr>items_f = (None :: nat list option), size_f = 0,
                   capacity_f = 9223372036854775808\<rparr>"
    by (simp add: Resize_thrown_def default_ctor_def)
  have "Resize 0 zeros 18446744073709551615 (default_ctor :: nat SimpleVector) = Inl bad_alloc"
    by (simp add: Resize_def default_ctor_def new_array_def max_array_len_def)
  with d have "reachable True (Resize_thrown 18446744073709551615 (default_ctor :: nat SimpleVector))"
    by (intro r_Resize_thrown) simp_all
  then have c1: "reachable True \<lparr>items_f = (None :: nat list option), size_f = 0,
                   capacity_f = 18446744073709551615\<rparr>"
    by (simp add: Resize_thrown_def default_ctor_def)
  have "Resize 0 zeros 18446744073709551615
          \<lparr>items_f = (None :: nat list option), size_f = 0, capacity_f = 18446744073709551615\<rparr>
        = Inr \<lparr>items_f = None, size_f = 18446744073709551615,
                capacity_f = 18446744073709551615\<rparr>"
    by (simp add: Resize_def)
  with c1 have c2: "reachable True \<lparr>items_f = (None :: nat list option),
      size_f = 18446744073709551615, capacity_f = 18446744073709551615\<rparr>"
    by (rule r_Resize)
  have "Insert zeros \<lparr>items_f = (None :: nat list option),
      size_f = 18446744073709551615, capacity_f = 18446744073709551615\<rparr> 0 7 = Inl bad_alloc"
    by (simp add: Insert_def InsertInVector_def new_array_def max_array_len_def)
  with c2 have "reachable True (InsertInVector_thrown \<lparr>items_f = (None :: nat list option),
      size_f = 18446744073709551615, capacity_f = 18446744073709551615\<rparr>)"
    by (intro r_Insert_thrown [where pos = 0 and x = 7 and fresh = zeros]) simp_all
  moreover have "InsertInVector_thrown \<lparr>items_f = (None :: nat list option),
      size_f = 18446744073709551615, capacity_f = 18446744073709551615\<rparr>
      = \<lparr>items_f = None, size_f = 18446744073709551615, capacity_f = 18446744073709551614\<rparr>"
    by (simp add: InsertInVector_thrown_def)
  ultimately have c: "reachable True \<lparr>items_f = (None :: nat list option),
      size_f = 18446744073709551615, capacity_f = 18446744073709551614\<rparr>"
    by (simp only:)
  from a b c show ?thesis by simp
qed

subsection \<open>Clear, Resize and Erase on the size member\<close>

text \<open>
  C9. \<open>Clear\<close> only sets \<open>size_\<close> to \<open>0\<close>, and \<open>Resize\<close> back to the old size, which
  is within the capacity, only sets \<open>size_\<close>: for a vector with \<open>size_ \<le> capacity_\<close>
  the two calls give back the very same object state, so the same elements in the
  same order.
\<close>

theorem C9_Clear_then_Resize:
  "size_f v \<le> capacity_f v \<Longrightarrow> Resize d fresh (size_f v) (Clear v) = Inr v"
  by (simp add: Resize_def Clear_def leD)

theorem C9_Clear_then_Resize_witness:
  "size_f three_of_four \<le> capacity_f three_of_four \<and>
   Clear three_of_four = \<lparr>items_f = Some [10, 20, 30, 40], size_f = 0, capacity_f = 4\<rparr> \<and>
   Resize 0 zeros 3 \<lparr>items_f = Some [10, 20, 30, 40], size_f = 0, capacity_f = 4\<rparr>
     = Inr three_of_four"
  using C9_Clear_then_Resize [of three_of_four 0 zeros]
  by (simp add: three_of_four_def Clear_def)




subsection \<open>What the loops compute within bounds\<close>

lemma move_loop_eq:
  "first + n \<le> length src \<Longrightarrow> d + n \<le> length dst \<Longrightarrow>
   move_loop n src first dst d = Inr (take d dst @ take n (drop first src) @ drop (d + n) dst)"
proof (induction n arbitrary: first dst d)
  case 0
  then show ?case by simp
next
  case (Suc n)
  from Suc.prems have lt: "first < length src" "d < length dst" by auto
  have "move_loop (Suc n) src first dst d =
        move_loop n src (first + 1) (dst[d := src ! first]) (d + 1)"
    using lt by simp
  also have "\<dots> = Inr (take (d + 1) (dst[d := src ! first]) @ take n (drop (first + 1) src)
                       @ drop (d + 1 + n) (dst[d := src ! first]))"
    using Suc.prems by (intro Suc.IH) auto
  also have "take (d + 1) (dst[d := src ! first]) = take d dst @ [src ! first]"
    using lt by (simp add: take_Suc_conv_app_nth)
  also have "drop (d + 1 + n) (dst[d := src ! first]) = drop (d + Suc n) dst"
    by simp
  also have "(take d dst @ [src ! first]) @ take n (drop (first + 1) src) @ drop (d + Suc n) dst
           = take d dst @ take (Suc n) (drop first src) @ drop (d + Suc n) dst"
    using lt by (simp add: Cons_nth_drop_Suc [symmetric])
  finally show ?case .
qed

lemma std_move_prefix:
  "n \<le> length src \<Longrightarrow> n \<le> length dst \<Longrightarrow>
   std_move src 0 n dst 0 = Inr (take n src @ drop n dst)"
  by (simp add: std_move_def move_loop_eq)

lemma fill_loop_eq:
  "first + n \<le> length b \<Longrightarrow>
   fill_loop n b first x = Inr (take first b @ replicate n x @ drop (first + n) b)"
proof (induction n arbitrary: first b)
  case 0
  then show ?case by simp
next
  case (Suc n)
  from Suc.prems have lt: "first < length b" by auto
  have "fill_loop (Suc n) b first x = fill_loop n (b[first := x]) (first + 1) x"
    using lt by simp
  also have "\<dots> = Inr (take (first + 1) (b[first := x]) @ replicate n x
                       @ drop (first + 1 + n) (b[first := x]))"
    using Suc.prems by (intro Suc.IH) auto
  also have "take (first + 1) (b[first := x]) = take first b @ [x]"
    using lt by (simp add: take_Suc_conv_app_nth)
  also have "drop (first + 1 + n) (b[first := x]) = drop (first + Suc n) b"
    by simp
  finally show ?case by (simp add: replicate_app_Cons_same)
qed

lemma std_fill_eq:
  "first \<le> l \<Longrightarrow> l \<le> length b \<Longrightarrow>
   std_fill b first l x = Inr (take first b @ replicate (l - first) x @ drop l b)"
  by (simp add: std_fill_def fill_loop_eq)

lemma new_array_ok:
  "n \<le> max_array_len \<Longrightarrow> new_array fresh n = Inr (map fresh [0..<n])"
  by (simp add: new_array_def)

lemma new_array_fail:
  "\<not> n \<le> max_array_len \<Longrightarrow> new_array fresh n = Inl bad_alloc"
  by (simp add: new_array_def)

lemma valid_three_of_four: "valid three_of_four"
  by (simp add: valid_def three_of_four_def max_array_len_def)

subsection \<open>Reserve\<close>

lemma Reserve_grow:
  assumes "valid v" "capacity_f v < new_capacity" "unat new_capacity \<le> max_array_len"
  shows "Reserve fresh new_capacity v =
           Inr (v\<lparr>items_f := Some (take (unat (size_f v)) (slots v)
                                   @ drop (unat (size_f v)) (map fresh [0..<unat new_capacity])),
                 capacity_f := new_capacity\<rparr>)"
proof -
  from assms(1) have "unat (size_f v) \<le> length (slots v)"
    by (simp add: valid_def word_le_nat_alt)
  moreover from assms(1,2) have "unat (size_f v) \<le> unat new_capacity"
    by (simp add: valid_def word_le_nat_alt word_less_nat_alt)
  ultimately show ?thesis
    using assms(2,3) by (simp add: Reserve_def new_array_ok std_move_prefix)
qed

text \<open>
  C7. On a valid vector, \<open>Reserve(new_cap)\<close> with \<open>new_cap \<le> capacity_\<close> changes
  nothing. With \<open>new_cap > capacity_\<close> it returns, unless the allocation throws,
  with \<open>capacity_ = new_cap\<close> exactly, \<open>size_\<close> unchanged and the first \<open>size_\<close>
  elements the same in the same order.
\<close>

theorem C7_Reserve:
  assumes "valid v"
  shows "(new_capacity \<le> capacity_f v \<longrightarrow> Reserve fresh new_capacity v = Inr v) \<and>
         (capacity_f v < new_capacity \<longrightarrow>
            (if unat new_capacity \<le> max_array_len
             then \<exists>v'. Reserve fresh new_capacity v = Inr v' \<and>
                       capacity_f v' = new_capacity \<and> size_f v' = size_f v \<and>
                       elements v' = elements v
             else Reserve fresh new_capacity v = Inl bad_alloc))"
proof (intro conjI impI)
  assume "new_capacity \<le> capacity_f v"
  then show "Reserve fresh new_capacity v = Inr v"
    by (simp add: Reserve_def leD)
next
  assume gt: "capacity_f v < new_capacity"
  show "if unat new_capacity \<le> max_array_len
        then \<exists>v'. Reserve fresh new_capacity v = Inr v' \<and>
                  capacity_f v' = new_capacity \<and> size_f v' = size_f v \<and>
                  elements v' = elements v
        else Reserve fresh new_capacity v = Inl bad_alloc"
  proof (cases "unat new_capacity \<le> max_array_len")
    case True
    from assms have "unat (size_f v) \<le> length (slots v)"
      by (simp add: valid_def word_le_nat_alt)
    with True Reserve_grow [OF assms gt True, of fresh] show ?thesis
      by (simp add: elements_def)
  next
    case False
    with gt show ?thesis
      by (simp add: Reserve_def new_array_fail)
  qed
qed

theorem C7_Reserve_witness:
  "valid three_of_four \<and>
   Reserve zeros 4 three_of_four = Inr three_of_four \<and>
   Reserve zeros 6 three_of_four
     = Inr \<lparr>items_f = Some [10, 20, 30, 0, 0, 0], size_f = 3, capacity_f = 6\<rparr> \<and>
   elements \<lparr>items_f = Some [10, 20, 30, 0, 0, 0 :: nat], size_f = 3, capacity_f = 6\<rparr>
     = elements three_of_four"
proof -
  have grow: "Reserve zeros 6 three_of_four
     = Inr \<lparr>items_f = Some [10, 20, 30, 0, 0, 0], size_f = 3, capacity_f = 6\<rparr>"
    using Reserve_grow [OF valid_three_of_four, of 6 zeros]
    by (simp add: three_of_four_def max_array_len_def zeros_def upt_conv_Cons)
  have less: "(4 :: size_t) \<le> capacity_f three_of_four"
    by (simp add: three_of_four_def)
  have same: "elements \<lparr>items_f = Some [10, 20, 30, 0, 0, 0 :: nat], size_f = 3, capacity_f = 6\<rparr>
     = elements three_of_four"
    by (simp add: elements_def three_of_four_def)
  from less grow same show ?thesis
    using C7_Reserve [OF valid_three_of_four, of 4 zeros]
      C7_Reserve [OF valid_three_of_four, of 6 zeros] valid_three_of_four
    by simp
qed

subsection \<open>Resize\<close>

lemma Resize_grow:
  assumes "valid v" "capacity_f v < new_size"
    "unat (max new_size (size_f v * 2)) \<le> max_array_len"
  shows "Resize d fresh new_size v =
           Inr \<lparr>items_f = Some (take (unat (size_f v)) (slots v)
                   @ replicate (unat new_size - unat (size_f v)) d
                   @ drop (unat new_size) (map fresh [0..<unat (max new_size (size_f v * 2))])),
                size_f = new_size, capacity_f = max new_size (size_f v * 2)\<rparr>"
proof -
  let ?cap = "max new_size (size_f v * 2)"
  let ?s = "unat (size_f v)"
  from assms(1) have s_le: "?s \<le> length (slots v)"
    by (simp add: valid_def word_le_nat_alt)
  from assms(1,2) have s_n: "?s \<le> unat new_size"
    by (simp add: valid_def word_le_nat_alt word_less_nat_alt)
  have n_cap: "unat new_size \<le> unat ?cap"
    by (simp add: word_le_nat_alt [symmetric])
  have mv: "std_move (slots v) 0 ?s (map fresh [0..<unat ?cap]) 0
            = Inr (take ?s (slots v) @ drop ?s (map fresh [0..<unat ?cap]))"
    using s_le s_n n_cap by (intro std_move_prefix) auto
  have fl: "std_fill (take ?s (slots v) @ drop ?s (map fresh [0..<unat ?cap])) ?s (unat new_size) d
            = Inr (take ?s (slots v) @ replicate (unat new_size - ?s) d
                   @ drop (unat new_size) (map fresh [0..<unat ?cap]))"
    using s_le s_n n_cap by (subst std_fill_eq) (auto simp: min_def)
  show ?thesis
    using assms(2,3) by (simp add: Resize_def Let_def new_array_ok mv fl)
qed

text \<open>
  C6. \<open>Resize(new_size)\<close> with \<open>new_size \<le> capacity_\<close> sets \<open>size_\<close> and nothing
  else: \<open>capacity_\<close> and every slot of the array are as before, so the slots
  \<open>[old size, new_size)\<close> keep the values they held. The growing branch differs: on a
  valid vector with \<open>new_size > capacity_\<close>, every slot in \<open>[old size, new_size)\<close>
  holds the default value \<open>Type{}\<close> afterwards.
\<close>

theorem C6_Resize_within_capacity:
  "(new_size \<le> capacity_f v \<longrightarrow> Resize d fresh new_size v = Inr (v\<lparr>size_f := new_size\<rparr>)) \<and>
   (valid v \<and> capacity_f v < new_size \<and> Resize d fresh new_size v = Inr v' \<longrightarrow>
      size_f v' = new_size \<and>
      (\<forall>i. unat (size_f v) \<le> i \<and> i < unat new_size \<longrightarrow> slots v' ! i = d))"
proof -
  have within: "new_size \<le> capacity_f v \<longrightarrow>
      Resize d fresh new_size v = Inr (v\<lparr>size_f := new_size\<rparr>)"
    by (simp add: Resize_def leD)
  have beyond: "valid v \<and> capacity_f v < new_size \<and> Resize d fresh new_size v = Inr v' \<longrightarrow>
      size_f v' = new_size \<and>
      (\<forall>i. unat (size_f v) \<le> i \<and> i < unat new_size \<longrightarrow> slots v' ! i = d)"
  proof (rule impI)
    assume a: "valid v \<and> capacity_f v < new_size \<and> Resize d fresh new_size v = Inr v'"
    then have ok: "unat (max new_size (size_f v * 2)) \<le> max_array_len"
      by (auto simp: Resize_def Let_def new_array_def split: if_splits)
    from a have s_le: "unat (size_f v) \<le> length (slots v)"
      by (simp add: valid_def word_le_nat_alt)
    from a Resize_grow [OF _ _ ok, of d fresh]
    have v': "v' = \<lparr>items_f = Some (take (unat (size_f v)) (slots v)
                   @ replicate (unat new_size - unat (size_f v)) d
                   @ drop (unat new_size) (map fresh [0..<unat (max new_size (size_f v * 2))])),
                size_f = new_size, capacity_f = max new_size (size_f v * 2)\<rparr>"
      by simp
    show "size_f v' = new_size \<and>
        (\<forall>i. unat (size_f v) \<le> i \<and> i < unat new_size \<longrightarrow> slots v' ! i = d)"
      using s_le by (auto simp: v' nth_append)
  qed
  from within beyond show ?thesis by (rule conjI)
qed

theorem C6_Resize_within_capacity_witness:
  "Resize 7 zeros 4 three_of_four
     = Inr \<lparr>items_f = Some [10, 20, 30, 40], size_f = 4, capacity_f = 4\<rparr> \<and>
   valid three_of_four \<and>
   Resize 7 zeros 5 three_of_four
     = Inr \<lparr>items_f = Some [10, 20, 30, 7, 7, 0], size_f = 5, capacity_f = 6\<rparr>"
proof -
  have two: "replicate 2 (7 :: nat) = [7, 7]"
    by (simp add: numeral_2_eq_2)
  have grow: "Resize 7 zeros 5 three_of_four
     = Inr \<lparr>items_f = Some [10, 20, 30, 7, 7, 0], size_f = 5, capacity_f = 6\<rparr>"
    using Resize_grow [OF valid_three_of_four, of 5 7 zeros]
    by (simp add: three_of_four_def max_array_len_def zeros_def upt_conv_Cons two)
  have less: "(4 :: size_t) \<le> capacity_f three_of_four"
    by (simp add: three_of_four_def)
  have upd: "three_of_four\<lparr>size_f := 4\<rparr>
     = \<lparr>items_f = Some [10, 20, 30, 40], size_f = 4, capacity_f = 4\<rparr>"
    by (simp add: three_of_four_def)
  from less grow upd show ?thesis
    using C6_Resize_within_capacity [of 4 three_of_four 7 zeros]
      C6_Resize_within_capacity [of 5 three_of_four 7 zeros
        "\<lparr>items_f = Some [10, 20, 30, 7, 7, 0], size_f = 5, capacity_f = 6\<rparr>"]
      valid_three_of_four
    by simp
qed

subsection \<open>Evaluating the loops on numerals\<close>

lemma move_loop_numeral:
  "move_loop (numeral k) src first dst d_first =
     (if first < length src \<and> d_first < length dst
      then move_loop (pred_numeral k) src (first + 1) (dst[d_first := src ! first]) (d_first + 1)
      else Inl undefined_behaviour)"
  by (simp add: numeral_eq_Suc)

lemma move_loop_within_numeral:
  "move_loop_within (numeral k) b first d_first =
     (if first < length b \<and> d_first < length b
      then move_loop_within (pred_numeral k) (b[d_first := b ! first]) (first + 1) (d_first + 1)
      else Inl undefined_behaviour)"
  by (simp add: numeral_eq_Suc)

lemma move_backward_loop_numeral:
  "move_backward_loop (numeral k) b last_i d_last =
     (if 0 < last_i \<and> last_i \<le> length b \<and> 0 < d_last \<and> d_last \<le> length b
      then move_backward_loop (pred_numeral k) (b[d_last - 1 := b ! (last_i - 1)])
             (last_i - 1) (d_last - 1)
      else Inl undefined_behaviour)"
  by (simp add: numeral_eq_Suc)

lemma equal_loop_numeral:
  "equal_loop (numeral k) a first1 b first2 =
     (if first1 < length a \<and> first2 < length b
      then (if a ! first1 = b ! first2 then equal_loop (pred_numeral k) a (first1 + 1) b (first2 + 1)
            else Inr False)
      else Inl undefined_behaviour)"
  by (simp add: numeral_eq_Suc)

lemmas loop_numerals =
  move_loop_numeral move_loop_within_numeral move_backward_loop_numeral equal_loop_numeral

lemma init_1234:
  "init_ctor zeros [10, 20, 30, 40]
     = Inr \<lparr>items_f = Some [10, 20, 30, 40], size_f = 4, capacity_f = 4\<rparr>"
  by (simp add: init_ctor_def new_array_def max_array_len_def std_move_def loop_numerals)

subsection \<open>Insert: what each branch does\<close>

text \<open>
  With spare capacity, \<open>std::move_backward(begin() + position, end(), end())\<close> moves
  the range \<open>[position, size_)\<close> onto itself, so no slot changes; the assignment that
  follows overwrites the element at \<open>position\<close>, and the increment of \<open>size_\<close> exposes
  the slot that was at index \<open>size_\<close>.
\<close>

lemma set_slots_same: "set_slots v (slots v) = v"
  by (cases "items_f v") (simp_all add: set_slots_def slots_def)

lemma move_backward_loop_same:
  "n \<le> l \<Longrightarrow> l \<le> length b \<Longrightarrow> move_backward_loop n b l l = Inr b"
  by (induction n arbitrary: l) auto

lemma InsertInVector_spare:
  assumes "valid v" "size_f v < capacity_f v" "pos \<le> unat (size_f v)"
  shows "InsertInVector fresh v pos x =
           Inr ((set_slots v ((slots v)[pos := x]))\<lparr>size_f := size_f v + 1\<rparr>, pos)"
proof -
  from assms(1,2) have lt: "unat (size_f v) < length (slots v)"
    by (simp add: valid_def word_less_nat_alt)
  with assms(3)
  have "std_move_backward (slots v) pos (unat (size_f v)) (unat (size_f v)) = Inr (slots v)"
    by (simp add: std_move_backward_def move_backward_loop_same)
  moreover from lt assms(3) have "store (slots v) pos x = Inr ((slots v)[pos := x])"
    by (simp add: store_def)
  ultimately show ?thesis
    using assms(2) by (simp add: InsertInVector_def set_slots_same)
qed

lemma unat_inc: "unat (s :: size_t) \<le> max_array_len \<Longrightarrow> unat (s + 1) = unat s + 1"
proof -
  assume "unat s \<le> max_array_len"
  then have "unat s + unat (1 :: size_t) < 2 ^ LENGTH(64)"
    by (simp add: max_array_len_def)
  then show ?thesis
    using unat_add_lem [of s 1] by simp
qed

lemma grow_capacity:
  assumes "unat (c :: size_t) \<le> max_array_len"
  shows "unat (if c = 0 then 1 else c + c) = (if unat c = 0 then 1 else 2 * unat c)"
  using assms double_no_wrap [of c] by (simp add: unat_eq_0)

text \<open>
  Without spare capacity the elements are moved into the new array around the gap,
  and the result is the old sequence with the value inserted at \<open>pos\<close>.
\<close>

lemma InsertInVector_full:
  assumes "valid v" "\<not> size_f v < capacity_f v" "pos \<le> unat (size_f v)"
    and ok: "unat (if capacity_f v = 0 then 1 else capacity_f v + capacity_f v) \<le> max_array_len"
  shows "\<exists>v'. InsertInVector fresh v pos x = Inr (v', pos) \<and>
              size_f v' = size_f v + 1 \<and>
              capacity_f v' = (if capacity_f v = 0 then 1 else capacity_f v + capacity_f v) \<and>
              elements v' = take pos (elements v) @ x # drop pos (elements v)"
proof -
  define cap where "cap = (if capacity_f v = 0 then 1 else capacity_f v + capacity_f v)"
  define b where "b = slots v"
  define s where "s = unat (size_f v)"
  define tmp where "tmp = map fresh [0..<unat cap]"
  from assms(1,2) have eq: "size_f v = capacity_f v"
    by (auto simp: valid_def)
  from assms(1) eq have lb: "length b = s" and s_max: "s \<le> max_array_len"
    by (simp_all add: valid_def b_def s_def)
  from assms(1) have "unat cap = (if unat (capacity_f v) = 0 then 1 else 2 * unat (capacity_f v))"
    unfolding cap_def by (intro grow_capacity) (simp add: valid_def)
  with eq have s_cap: "s + 1 \<le> unat cap"
    by (simp add: s_def)
  have ps: "pos \<le> s"
    using assms(3) by (simp add: s_def)
  have ltmp: "length tmp = unat cap"
    by (simp add: tmp_def)
  define t1 where "t1 = take pos b @ drop pos tmp"
  define t2 where "t2 = take (pos + 1) t1 @ drop pos b @ drop (s + 1) t1"
  have lt1: "length t1 = unat cap"
    using ps lb s_cap ltmp by (simp add: t1_def)
  have alloc: "new_array fresh (unat cap) = Inr tmp"
    using ok by (simp add: new_array_ok cap_def tmp_def)
  have m1: "std_move b 0 pos tmp 0 = Inr t1"
    unfolding t1_def using ps lb s_cap ltmp by (intro std_move_prefix) auto
  have "move_loop (s - pos) b pos t1 (pos + 1)
        = Inr (take (pos + 1) t1 @ take (s - pos) (drop pos b) @ drop (pos + 1 + (s - pos)) t1)"
    using ps lb s_cap lt1 by (intro move_loop_eq) auto
  then have m2: "std_move b pos s t1 (pos + 1) = Inr t2"
    using ps lb by (simp add: t2_def std_move_def)
  have lt2: "length t2 = unat cap"
    using ps lb s_cap lt1 by (simp add: t2_def)
  then have st: "store t2 pos x = Inr (t2[pos := x])"
    using ps s_cap by (simp add: store_def)
  let ?v' = "\<lparr>items_f = Some (t2[pos := x]), size_f = size_f v + 1, capacity_f = cap\<rparr>"
  have res: "InsertInVector fresh v pos x = Inr (?v', pos)"
    using assms(2) alloc m1 m2 st
    by (simp add: InsertInVector_def cap_def [symmetric] b_def [symmetric] s_def [symmetric]
        set_slots_def)
  have "take (pos + 1) t1 = take pos b @ [tmp ! pos]"
    using ps lb s_cap ltmp by (simp add: t1_def take_Suc_conv_app_nth nth_append)
  then have "t2[pos := x] = take pos b @ x # drop pos b @ drop (s + 1) t1"
    using ps lb by (simp add: t2_def list_update_append)
  moreover have "unat (size_f v + 1) = s + 1"
    using s_max unfolding s_def by (rule unat_inc)
  ultimately have "elements ?v' = take pos b @ x # drop pos b"
    using ps lb by (simp add: elements_def Suc_diff_le)
  moreover have "elements v = b"
    using lb by (simp add: elements_def b_def s_def)
  ultimately show ?thesis
    using res by (simp add: cap_def)
qed

subsection \<open>Growth on PushBack\<close>

lemma PushBack_fields:
  "PushBack fresh v x = Inr v' \<Longrightarrow>
     size_f v' = size_f v + 1 \<and>
     capacity_f v' = (if size_f v < capacity_f v then capacity_f v
                      else if capacity_f v = 0 then 1 else capacity_f v + capacity_f v)"
  by (auto simp: PushBack_def InsertInVector_def Let_def split: sum.splits if_splits)

lemma PushBack_returns:
  assumes "valid v" "unat (size_f v) < 2 ^ 62"
  shows "\<exists>v'. PushBack fresh v x = Inr v'"
proof (cases "size_f v < capacity_f v")
  case True
  with assms(1) show ?thesis
    by (simp add: PushBack_def InsertInVector_spare)
next
  case False
  with assms(1) have eq: "size_f v = capacity_f v"
    by (auto simp: valid_def)
  from assms(1) have
    "unat (if capacity_f v = 0 then 1 else capacity_f v + capacity_f v)
       = (if unat (capacity_f v) = 0 then 1 else 2 * unat (capacity_f v))"
    by (intro grow_capacity) (simp add: valid_def)
  with assms(2) eq have
    "unat (if capacity_f v = 0 then 1 else capacity_f v + capacity_f v) \<le> max_array_len"
    by (simp add: max_array_len_def)
  from InsertInVector_full [OF assms(1) False _ this, of "unat (size_f v)" fresh x]
  show ?thesis
    by (auto simp: PushBack_def)
qed

lemma grown_PushBack:
  assumes "valid v" "grown v" "PushBack fresh v x = Inr v'"
  shows "grown v' \<and> unat (size_f v') = unat (size_f v) + 1"
proof -
  from assms(3) have sz: "size_f v' = size_f v + 1"
    and cp: "capacity_f v' = (if size_f v < capacity_f v then capacity_f v
                      else if capacity_f v = 0 then 1 else capacity_f v + capacity_f v)"
    by (auto dest: PushBack_fields)
  from assms(1) have le: "unat (size_f v) \<le> unat (capacity_f v)"
    and mx: "unat (capacity_f v) \<le> max_array_len"
    by (simp_all add: valid_def word_le_nat_alt)
  then have inc: "unat (size_f v') = unat (size_f v) + 1"
    unfolding sz by (intro unat_inc) simp
  have "grown v'"
  proof (cases "size_f v < capacity_f v")
    case True
    then have lt: "unat (size_f v) < unat (capacity_f v)"
      by (simp add: word_less_nat_alt)
    with assms(2) obtain n where n: "unat (capacity_f v) = 2 ^ n"
      "unat (size_f v) \<le> 2 ^ n" "2 ^ n < 2 * unat (size_f v)"
      by (auto simp: grown_def)
    from True cp have "capacity_f v' = capacity_f v" by simp
    with n lt inc have "unat (capacity_f v') = 2 ^ n \<and> unat (size_f v') \<le> 2 ^ n \<and>
          2 ^ n < 2 * unat (size_f v')"
      by simp
    then show ?thesis unfolding grown_def by blast
  next
    case False
    with le have eq: "unat (size_f v) = unat (capacity_f v)"
      by (simp add: word_less_nat_alt)
    from mx have dbl:
      "unat (if capacity_f v = 0 then 1 else capacity_f v + capacity_f v)
         = (if unat (capacity_f v) = 0 then 1 else 2 * unat (capacity_f v))"
      by (rule grow_capacity)
    show ?thesis
    proof (cases "unat (capacity_f v) = 0")
      case True
      with False cp dbl eq inc have "unat (capacity_f v') = 2 ^ 0 \<and> unat (size_f v') \<le> 2 ^ 0 \<and>
          2 ^ 0 < 2 * unat (size_f v')"
        by simp
      then show ?thesis unfolding grown_def by blast
    next
      case nz: False
      with assms(2) eq obtain n where n: "unat (capacity_f v) = 2 ^ n"
        by (auto simp: grown_def unat_eq_0)
      from False cp dbl nz n have "unat (capacity_f v') = 2 ^ Suc n"
        by simp
      moreover from inc eq n have "unat (size_f v') = 2 ^ n + 1"
        by simp
      ultimately have "unat (capacity_f v') = 2 ^ Suc n \<and> unat (size_f v') \<le> 2 ^ Suc n \<and>
          2 ^ Suc n < 2 * unat (size_f v')"
        by simp
      then show ?thesis unfolding grown_def by blast
    qed
  qed
  with inc show ?thesis by simp
qed

lemma grown_PushBack_all:
  "valid v \<Longrightarrow> grown v \<Longrightarrow> PushBack_all fresh v xs = Inr v' \<Longrightarrow>
     valid v' \<and> grown v' \<and> unat (size_f v') = unat (size_f v) + length xs"
proof (induction xs arbitrary: v)
  case Nil
  then show ?case by simp
next
  case (Cons x xs)
  from Cons.prems(3) obtain w where w: "PushBack fresh v x = Inr w"
    and rest: "PushBack_all fresh w xs = Inr v'"
    by (auto split: sum.splits)
  from Cons.prems(1) w have "valid w" by (rule valid_PushBack)
  moreover from Cons.prems(1,2) w have gw: "grown w \<and> unat (size_f w) = unat (size_f v) + 1"
    by (rule grown_PushBack)
  ultimately have "valid v' \<and> grown v' \<and> unat (size_f v') = unat (size_f w) + length xs"
    using rest by (intro Cons.IH) simp_all
  with gw show ?case by simp
qed

lemma PushBack_all_returns:
  "valid v \<Longrightarrow> grown v \<Longrightarrow> unat (size_f v) + length xs \<le> N \<Longrightarrow> N \<le> 2 ^ 62 \<Longrightarrow>
     \<exists>v'. PushBack_all fresh v xs = Inr v'"
proof (induction xs arbitrary: v)
  case Nil
  show ?case by simp
next
  case (Cons x xs)
  from Cons.prems(3) have "unat (size_f v) < N" by simp
  then have lt: "unat (size_f v) < 2 ^ 62"
    using Cons.prems(4) by (rule less_le_trans)
  have "\<exists>w. PushBack fresh v x = Inr w"
    using Cons.prems(1) lt by (rule PushBack_returns)
  then obtain w where w: "PushBack fresh v x = Inr w" ..
  from Cons.prems(1) w have vw: "valid w" by (rule valid_PushBack)
  from Cons.prems(1,2) w have gw: "grown w \<and> unat (size_f w) = unat (size_f v) + 1"
    by (rule grown_PushBack)
  from gw have g: "grown w" ..
  from gw Cons.prems(3) have le: "unat (size_f w) + length xs \<le> N" by simp
  have "\<exists>v'. PushBack_all fresh w xs = Inr v'"
    using vw g le Cons.prems(4) by (rule Cons.IH)
  with w show ?case by simp
qed

lemma grown_default: "grown default_ctor"
  by (simp add: grown_def default_ctor_def)

text \<open>
  C4. Starting from the default-constructed vector, \<open>k \<ge> 1\<close> consecutive \<open>PushBack\<close>
  calls return whenever \<open>k \<le> 2^62\<close>; and whenever they return, the size is \<open>k\<close> and
  the capacity is the smallest power of two that is at least \<open>k\<close>. A \<open>PushBack\<close> on a
  full valid vector that returns leaves capacity \<open>1\<close> if it was \<open>0\<close>, and exactly
  twice the old capacity otherwise.
\<close>

theorem C4_growth_doubling:
  "(xs \<noteq> [] \<and> length xs \<le> 2 ^ 62 \<longrightarrow> (\<exists>v. PushBack_all fresh default_ctor xs = Inr v)) \<and>
   (xs \<noteq> [] \<and> PushBack_all fresh default_ctor xs = Inr v \<longrightarrow>
      unat (size_f v) = length xs \<and>
      (\<exists>n. unat (capacity_f v) = 2 ^ n \<and> length xs \<le> 2 ^ n \<and>
           (\<forall>m. length xs \<le> 2 ^ m \<longrightarrow> n \<le> m))) \<and>
   (valid w \<and> size_f w = capacity_f w \<and> PushBack fresh w x = Inr w' \<longrightarrow>
      unat (capacity_f w') = (if capacity_f w = 0 then 1 else 2 * unat (capacity_f w)))"
proof -
  have returns: "xs \<noteq> [] \<and> length xs \<le> 2 ^ 62 \<longrightarrow>
      (\<exists>v. PushBack_all fresh default_ctor xs = Inr v)"
  proof (rule impI)
    assume a: "xs \<noteq> [] \<and> length xs \<le> 2 ^ 62"
    have "unat (size_f (default_ctor :: 'a SimpleVector)) + length xs \<le> length xs"
      by (simp add: default_ctor_def)
    with valid_default grown_default show "\<exists>v. PushBack_all fresh default_ctor xs = Inr v"
      using conjunct2 [OF a] by (rule PushBack_all_returns)
  qed
  have pow: "xs \<noteq> [] \<and> PushBack_all fresh default_ctor xs = Inr v \<longrightarrow>
      unat (size_f v) = length xs \<and>
      (\<exists>n. unat (capacity_f v) = 2 ^ n \<and> length xs \<le> 2 ^ n \<and>
           (\<forall>m. length xs \<le> 2 ^ m \<longrightarrow> n \<le> m))"
  proof (rule impI)
    assume a: "xs \<noteq> [] \<and> PushBack_all fresh default_ctor xs = Inr v"
    with grown_PushBack_all [OF valid_default grown_default, of fresh xs v]
    have g: "grown v" and k: "unat (size_f v) = length xs"
      by (simp_all add: default_ctor_def)
    from a k have "size_f v \<noteq> 0"
      by auto
    with g k obtain n where n: "unat (capacity_f v) = 2 ^ n" "length xs \<le> 2 ^ n"
      "2 ^ n < 2 * length xs"
      by (auto simp: grown_def)
    have "n \<le> m" if "length xs \<le> 2 ^ m" for m
    proof -
      from n(3) that have "(2::nat) ^ n < 2 ^ Suc m" by simp
      then have "n < Suc m" by (simp only: power_strict_increasing_iff)
      then show ?thesis by simp
    qed
    then have "\<forall>m. length xs \<le> 2 ^ m \<longrightarrow> n \<le> m" by simp
    with n(1,2) have "\<exists>n. unat (capacity_f v) = 2 ^ n \<and> length xs \<le> 2 ^ n \<and>
           (\<forall>m. length xs \<le> 2 ^ m \<longrightarrow> n \<le> m)"
      by (intro exI [of _ n]) simp
    with k show "unat (size_f v) = length xs \<and>
      (\<exists>n. unat (capacity_f v) = 2 ^ n \<and> length xs \<le> 2 ^ n \<and>
           (\<forall>m. length xs \<le> 2 ^ m \<longrightarrow> n \<le> m))"
      by simp
  qed
  have step: "valid w \<and> size_f w = capacity_f w \<and> PushBack fresh w x = Inr w' \<longrightarrow>
      unat (capacity_f w') = (if capacity_f w = 0 then 1 else 2 * unat (capacity_f w))"
  proof (rule impI)
    assume a: "valid w \<and> size_f w = capacity_f w \<and> PushBack fresh w x = Inr w'"
    then have "capacity_f w' = (if capacity_f w = 0 then 1 else capacity_f w + capacity_f w)"
      by (auto dest: PushBack_fields)
    moreover from a have "unat (capacity_f w) \<le> max_array_len"
      by (simp add: valid_def)
    ultimately show "unat (capacity_f w') = (if capacity_f w = 0 then 1 else 2 * unat (capacity_f w))"
      using double_no_wrap [of "capacity_f w"] by simp
  qed
  show ?thesis
    by (rule conjI [OF returns conjI [OF pow step]])
qed

theorem C4_growth_doubling_witness:
  "PushBack_all zeros default_ctor [10, 20, 30]
     = Inr \<lparr>items_f = Some [10, 20, 30, 0], size_f = 3, capacity_f = 4\<rparr> \<and>
   unat (4 :: size_t) = 2 ^ 2 \<and>
   valid \<lparr>items_f = Some [10, 20 :: nat], size_f = 2, capacity_f = 2\<rparr> \<and>
   PushBack zeros \<lparr>items_f = Some [10, 20], size_f = 2, capacity_f = 2\<rparr> 30
     = Inr \<lparr>items_f = Some [10, 20, 30, 0], size_f = 3, capacity_f = 4\<rparr>"
proof -
  have p1: "PushBack zeros default_ctor 10 = Inr \<lparr>items_f = Some [10], size_f = 1, capacity_f = 1\<rparr>"
    by (simp add: PushBack_def InsertInVector_def default_ctor_def new_array_def
        max_array_len_def std_move_def store_def set_slots_def zeros_def)
  have p2: "PushBack zeros \<lparr>items_f = Some [10], size_f = 1, capacity_f = 1\<rparr> 20
        = Inr \<lparr>items_f = Some [10, 20], size_f = 2, capacity_f = 2\<rparr>"
    by (simp add: PushBack_def InsertInVector_def new_array_def
        max_array_len_def std_move_def store_def set_slots_def zeros_def upt_conv_Cons)
  have p3: "PushBack zeros \<lparr>items_f = Some [10, 20], size_f = 2, capacity_f = 2\<rparr> 30
        = Inr \<lparr>items_f = Some [10, 20, 30, 0], size_f = 3, capacity_f = 4\<rparr>"
    by (simp add: PushBack_def InsertInVector_def new_array_def
        max_array_len_def std_move_def store_def set_slots_def zeros_def upt_conv_Cons
        loop_numerals)
  have v2: "valid \<lparr>items_f = Some [10, 20 :: nat], size_f = 2, capacity_f = 2\<rparr>"
    by (simp add: valid_def max_array_len_def)
  have all: "PushBack_all zeros default_ctor [10, 20, 30]
     = Inr \<lparr>items_f = Some [10, 20, 30, 0], size_f = 3, capacity_f = 4\<rparr>"
    by (simp add: p1 p2 p3)
  from all p3 v2 show ?thesis
    using C4_growth_doubling [of "[10, 20, 30]" zeros
        "\<lparr>items_f = Some [10, 20, 30, 0], size_f = 3, capacity_f = 4\<rparr>"
        "\<lparr>items_f = Some [10, 20], size_f = 2, capacity_f = 2\<rparr>" 30
        "\<lparr>items_f = Some [10, 20, 30, 0], size_f = 3, capacity_f = 4\<rparr>"]
    by simp
qed

subsection \<open>Insert with spare capacity, on a concrete vector\<close>

text \<open>
  C1 asks that \<open>Insert\<close> into a vector with spare capacity shift the elements from the
  position on by one slot and put the value in the gap. The code does not: on the
  vector \<open>{10, 20, 30, 40}\<close> after one \<open>PopBack\<close> (elements \<open>10, 20, 30\<close>, capacity
  \<open>4\<close>), \<open>Insert(begin(), 99)\<close> returns position \<open>0\<close> and size \<open>4\<close>, but the elements
  are \<open>99, 20, 30, 40\<close> instead of \<open>99, 10, 20, 30\<close>: the element \<open>10\<close> is overwritten
  and the stale slot \<open>40\<close> comes back.
\<close>

theorem C1_Insert_with_spare_capacity:
  "init_ctor zeros [10, 20, 30, 40]
     = Inr \<lparr>items_f = Some [10, 20, 30, 40], size_f = 4, capacity_f = 4\<rparr> \<and>
   PopBack \<lparr>items_f = Some [10, 20, 30, 40], size_f = 4, capacity_f = 4\<rparr> = Inr three_of_four \<and>
   elements three_of_four = [10, 20, 30] \<and>
   Insert zeros three_of_four 0 99
     = Inr (\<lparr>items_f = Some [99, 20, 30, 40], size_f = 4, capacity_f = 4\<rparr>, 0) \<and>
   elements \<lparr>items_f = Some [99, 20, 30, 40 :: nat], size_f = 4, capacity_f = 4\<rparr> = [99, 20, 30, 40]"
  by (simp add: init_1234 PopBack_def three_of_four_def elements_def Insert_def
      InsertInVector_def std_move_backward_def store_def set_slots_def loop_numerals)

subsection \<open>Erase, and Insert followed by Erase\<close>

text \<open>
  \<open>Erase\<close> at a position below \<open>size_\<close> removes exactly that element. After an
  \<open>Insert\<close> that reallocates, \<open>Erase\<close> at the same position gives the old elements
  back.
\<close>

lemma move_loop_within_down:
  "d + 1 + n \<le> length b \<Longrightarrow>
   move_loop_within n b (d + 1) d = Inr (take d b @ take n (drop (d + 1) b) @ drop (d + n) b)"
proof (induction n arbitrary: b d)
  case 0
  then show ?case by simp
next
  case (Suc n)
  let ?b = "b[d := b ! (d + 1)]"
  from Suc.prems have lt: "d + 1 < length b" by simp
  then have "move_loop_within (Suc n) b (d + 1) d = move_loop_within n ?b (d + 1 + 1) (d + 1)"
    by simp
  also have "\<dots> = Inr (take (d + 1) ?b @ take n (drop (d + 1 + 1) ?b) @ drop (d + 1 + n) ?b)"
    using Suc.prems by (intro Suc.IH) simp
  also have "take (d + 1) ?b = take d b @ [b ! (d + 1)]"
    using lt by (simp add: take_Suc_conv_app_nth)
  also have "drop (d + 1 + 1) ?b = drop (d + 1 + 1) b"
    by simp
  also have "drop (d + 1 + n) ?b = drop (d + Suc n) b"
    by simp
  also have "(take d b @ [b ! (d + 1)]) @ take n (drop (d + 1 + 1) b) @ drop (d + Suc n) b
      = take d b @ take (Suc n) (drop (d + 1) b) @ drop (d + Suc n) b"
    using lt by (simp add: Cons_nth_drop_Suc [symmetric])
  finally show ?case .
qed

lemma Erase_elements:
  assumes "valid v" "pos < unat (size_f v)"
  shows "\<exists>v'. Erase v pos = Inr (v', pos) \<and> size_f v' = size_f v - 1 \<and>
              capacity_f v' = capacity_f v \<and>
              elements v' = take pos (elements v) @ drop (pos + 1) (elements v)"
proof -
  define b where "b = slots v"
  define s where "s = unat (size_f v)"
  from assms(1) have sb: "s \<le> length b"
    by (simp add: valid_def word_le_nat_alt s_def b_def)
  from assms(2) have ps: "pos < s" by (simp add: s_def)
  define b' where "b' = take pos b @ take (s - (pos + 1)) (drop (pos + 1) b) @ drop (s - 1) b"
  have "move_loop_within (s - (pos + 1)) b (pos + 1) pos
        = Inr (take pos b @ take (s - (pos + 1)) (drop (pos + 1) b)
               @ drop (pos + (s - (pos + 1))) b)"
    using ps sb by (intro move_loop_within_down) simp
  with ps have mv: "std_move_within b (pos + 1) s pos = Inr b'"
    by (simp add: std_move_within_def b'_def)
  then have lb': "length b' = length (slots v)"
    unfolding b_def by (rule std_move_within_length)
  from ps have "size_f v \<noteq> 0"
    by (auto simp: s_def)
  then have dec: "unat (size_f v - 1) = s - 1"
    by (simp add: unat_minus_one s_def)
  have "take (s - 1) b' = take pos b @ take (s - (pos + 1)) (drop (pos + 1) b)"
    using ps sb by (simp add: b'_def)
  also have "\<dots> = take pos (take s b) @ drop (pos + 1) (take s b)"
    using ps sb by (simp add: drop_take min_def)
  finally have "take (s - 1) b' = take pos (take s b) @ drop (pos + 1) (take s b)" .
  with mv lb' dec show ?thesis
    by (simp add: Erase_def elements_def b_def [symmetric] s_def [symmetric])
qed

lemma Insert_full_then_Erase:
  assumes "valid v" "\<not> size_f v < capacity_f v" "pos \<le> unat (size_f v)"
    and ok: "unat (if capacity_f v = 0 then 1 else capacity_f v + capacity_f v) \<le> max_array_len"
  shows "\<exists>v' v''. Insert fresh v pos x = Inr (v', pos) \<and> Erase v' pos = Inr (v'', pos) \<and>
                  size_f v'' = size_f v \<and> elements v'' = elements v"
proof -
  from InsertInVector_full [OF assms, of fresh x] obtain v' where
    ins: "InsertInVector fresh v pos x = Inr (v', pos)"
    and sz: "size_f v' = size_f v + 1"
    and el: "elements v' = take pos (elements v) @ x # drop pos (elements v)"
    by blast
  from assms(1) ins have v': "valid v'"
    by (rule valid_InsertInVector)
  from assms(1) have "unat (size_f v) \<le> max_array_len"
    by (simp add: valid_def word_le_nat_alt)
  then have inc: "unat (size_f v') = unat (size_f v) + 1"
    unfolding sz by (rule unat_inc)
  with assms(3) have "pos < unat (size_f v')" by simp
  with v' obtain v'' where er: "Erase v' pos = Inr (v'', pos)"
    and sz'': "size_f v'' = size_f v' - 1"
    and el'': "elements v'' = take pos (elements v') @ drop (pos + 1) (elements v')"
    using Erase_elements by blast
  from assms(1,3) have "pos \<le> length (elements v)"
    by (simp add: elements_def valid_def word_le_nat_alt)
  with el el'' have "elements v'' = elements v"
    by simp
  with ins er sz sz'' show ?thesis
    by (simp add: Insert_def)
qed

text \<open>
  C2 asks that \<open>Insert\<close> at a position followed by \<open>Erase\<close> at that position give the
  original sequence back. On the same vector, \<open>Insert(begin(), 99)\<close> and then
  \<open>Erase(begin())\<close> leave the elements \<open>20, 30, 40\<close>, not \<open>10, 20, 30\<close>.
\<close>

theorem C2_Insert_then_Erase:
  "elements three_of_four = [10, 20, 30] \<and>
   Insert zeros three_of_four 0 99
     = Inr (\<lparr>items_f = Some [99, 20, 30, 40], size_f = 4, capacity_f = 4\<rparr>, 0) \<and>
   Erase \<lparr>items_f = Some [99, 20, 30, 40 :: nat], size_f = 4, capacity_f = 4\<rparr> 0
     = Inr (\<lparr>items_f = Some [20, 30, 40, 40], size_f = 3, capacity_f = 4\<rparr>, 0) \<and>
   elements \<lparr>items_f = Some [20, 30, 40, 40 :: nat], size_f = 3, capacity_f = 4\<rparr> = [20, 30, 40]"
  by (simp add: three_of_four_def elements_def Insert_def Erase_def
      InsertInVector_def std_move_backward_def std_move_within_def store_def set_slots_def
      loop_numerals)

subsection \<open>Equality\<close>

lemma equal_loop_eq:
  "first1 + n \<le> length a \<Longrightarrow> first2 + n \<le> length b \<Longrightarrow>
   equal_loop n a first1 b first2 = Inr (take n (drop first1 a) = take n (drop first2 b))"
proof (induction n arbitrary: first1 first2)
  case 0
  then show ?case by simp
next
  case (Suc n)
  from Suc.prems have lt: "first1 < length a" "first2 < length b" by auto
  then have hd: "take (Suc n) (drop first1 a) = a ! first1 # take n (drop (Suc first1) a)"
    "take (Suc n) (drop first2 b) = b ! first2 # take n (drop (Suc first2) b)"
    by (simp_all add: Cons_nth_drop_Suc [symmetric])
  from Suc.prems have "equal_loop n a (first1 + 1) b (first2 + 1)
      = Inr (take n (drop (first1 + 1) a) = take n (drop (first2 + 1) b))"
    by (intro Suc.IH) auto
  with lt hd show ?case by simp
qed

lemma operator_eq_within_bounds:
  assumes "unat (size_f lhs) \<le> length (slots lhs)" "unat (size_f lhs) \<le> length (slots rhs)"
  shows "operator_eq lhs rhs = Inr (size_f lhs = size_f rhs \<and> elements lhs = elements rhs)"
  using assms by (auto simp: operator_eq_def std_equal_def equal_loop_eq GetSize_def elements_def)

text \<open>
  C3 asks that \<open>operator==\<close> decide equality of length and elements without reading
  outside the elements of either operand. The code calls \<open>std::equal\<close> over the
  whole of \<open>lhs\<close> before it compares the sizes: for \<open>lhs = {10, 20}\<close> and
  \<open>rhs = {10}\<close> the loop reads \<open>rhs.begin()[1]\<close>, one slot past the only slot of
  \<open>rhs\<close>.
\<close>

theorem C3_operator_eq_reads_past_rhs:
  "init_ctor zeros [10, 20] = Inr \<lparr>items_f = Some [10, 20], size_f = 2, capacity_f = 2\<rparr> \<and>
   init_ctor zeros [10] = Inr \<lparr>items_f = Some [10], size_f = 1, capacity_f = 1\<rparr> \<and>
   operator_eq \<lparr>items_f = Some [10, 20 :: nat], size_f = 2, capacity_f = 2\<rparr>
               \<lparr>items_f = Some [10], size_f = 1, capacity_f = 1\<rparr>
     = Inl undefined_behaviour"
  by (simp add: init_ctor_def new_array_def max_array_len_def std_move_def
      operator_eq_def std_equal_def loop_numerals)

end
